theory Spec2Isabelle
  imports Main "HOL-Library.Sublist" "HOL-Library.AList"
begin

section \<open>Shallow embedding of controllers/smsController.js\<close>

text \<open>
  JavaScript strings are modelled as \<^typ>\<open>string\<close>. Every character class the
  controller uses (\<open>\D\<close>, \<open>\d\<close>, \<open>[6-9]\<close>, \<open>[^&]\<close>) and every separator
  (\<open>,\<close>) is ASCII, so a character-wise reading agrees with the regular expressions.
\<close>

subsection \<open>Phone numbers\<close>

definition isDigit :: "char \<Rightarrow> bool" where
  "isDigit c = (c \<in> set ''0123456789'')"

text \<open>\<open>phone.replace(/\D/g, '')\<close>: every non-digit is removed.\<close>

definition stripNonDigits :: "string \<Rightarrow> string" where
  "stripNonDigits phone = filter isDigit phone"

text \<open>
  \<open>/^[6-9]\d{9}$/.test(cleaned)\<close>: the first character is one of 6..9, exactly nine
  digits follow, and the input ends there.
\<close>

definition validatePhoneNumber :: "string \<Rightarrow> bool" where
  "validatePhoneNumber phone =
     (case stripNonDigits phone of
        [] \<Rightarrow> False
      | c # rest \<Rightarrow> c \<in> set ''6789'' \<and> length rest = 9 \<and> list_all isDigit rest)"

text \<open>\<open>cleaned.startsWith('91') ? cleaned : `91${cleaned}`\<close>\<close>

definition formatPhoneWithCountryCode :: "string \<Rightarrow> string" where
  "formatPhoneWithCountryCode phone =
     (let cleaned = stripNonDigits phone
      in if prefix ''91'' cleaned then cleaned else ''91'' @ cleaned)"

subsection \<open>Plain objects used as dictionaries\<close>

text \<open>
  The controller keeps two dictionaries in plain object literals: \<open>errorMessages\<close>
  and \<open>groupedByMessage = {}\<close>. A plain object is modelled by the association list of
  its own properties, in creation order. Reading \<open>obj[key]\<close> walks the prototype chain:
  when \<open>key\<close> is not an own property, the read reaches \<open>Object.prototype\<close>, whose
  members (ECMAScript 20.1.3 and Annex B.2.2) are listed below; they are functions or
  objects, hence truthy and never strings.
\<close>

type_synonym 'a js_object = "(string \<times> 'a) list"

definition objectPrototypeKeys :: "string list" where
  "objectPrototypeKeys =
     [''constructor'', ''hasOwnProperty'', ''isPrototypeOf'', ''propertyIsEnumerable'',
      ''toLocaleString'', ''toString'', ''valueOf'', ''__proto__'',
      ''__defineGetter__'', ''__defineSetter__'', ''__lookupGetter__'', ''__lookupSetter__'']"

datatype 'a lookup = Own 'a | Inherited string | Undefined

definition getProp :: "'a js_object \<Rightarrow> string \<Rightarrow> 'a lookup" where
  "getProp obj key =
     (case map_of obj key of
        Some v \<Rightarrow> Own v
      | None \<Rightarrow> if key \<in> set objectPrototypeKeys then Inherited key else Undefined)"

subsection \<open>Values, errors and effects\<close>

text \<open>
  A thrown value is an \<open>Error\<close> or a \<open>TypeError\<close> carrying its \<open>message\<close>. An
  optional string stands for a JSON or environment value that is a string, \<open>null\<close> or
  \<open>undefined\<close>; in a condition it is truthy iff it is a non-empty string.
\<close>

datatype js_error = Error string | TypeError string

fun errorMessageOf :: "js_error \<Rightarrow> string" where
  "errorMessageOf (Error m) = m"
| "errorMessageOf (TypeError m) = m"

fun truthy :: "string option \<Rightarrow> bool" where
  "truthy None = False"
| "truthy (Some s) = (s \<noteq> [])"

text \<open>Template literals print a number in decimal.\<close>

definition digitChar :: "nat \<Rightarrow> char" where
  "digitChar n = ''0123456789'' ! n"

fun showNat :: "nat \<Rightarrow> string" where
  "showNat n = (if n < 10 then [digitChar n] else showNat (n div 10) @ [digitChar (n mod 10)])"

declare showNat.simps [simp del]

text \<open>
  A \<open>fetch\<close> either rejects or resolves to a response; reading the body
  (\<open>response.text()\<close>, the field \<open>bodyText\<close>) can itself reject.
\<close>

record http_response =
  ok :: bool
  status :: nat
  bodyText :: "js_error + string"

datatype fetch_result = Rejects js_error | Resolves http_response

record credential =
  token :: "string option"
  expiry :: int

text \<open>
  The observable effects: the two token calls, the write of the cache file, one call of
  the send endpoint (recipient list, sender, text, template id, bearer token) and the
  \<open>setTimeout\<close> pause in milliseconds.
\<close>

datatype effect =
    GenerateToken string
  | EnableToken string
  | SaveTokenToDisk credential
  | SendSMS string string string string string
  | Delay nat

record env =
  PRAGATI_API_BASE_URL :: "string option"
  PRAGATI_API_KEY :: "string option"
  SMS_SENDER_ID :: "string option"

subsection \<open>The token manager\<close>

text \<open>
  The module state: \<open>cachedToken\<close> and \<open>tokenRefreshPromise\<close>. One call of
  \<open>getAuthToken\<close> is followed to its completion. A refresh that another call has in
  flight is represented by how it settles: it rejects with an error and leaves
  \<open>cachedToken\<close> alone, or it stores a credential and fulfils; either way its
  \<open>finally\<close> block has reset \<open>tokenRefreshPromise\<close> to \<open>null\<close> when the awaiting call
  resumes.
\<close>

datatype promise = Promise "js_error + credential"

record auth_state =
  cachedToken :: credential
  tokenRefreshPromise :: "promise option"

text \<open>
  What the outside world answers during one call: the clock at entry, after the wait
  for a refresh in flight and when the new token is cached; the results of the two
  \<open>fetch\<close> calls; and what \<open>(await response.json()).token\<close> evaluates to (an exception
  for a body that is not JSON).
\<close>

record auth_world =
  now :: int
  nowAfterWait :: int
  generateResult :: fetch_result
  generateToken :: "js_error + string option"
  enableResult :: fetch_result
  nowAtCache :: int

text \<open>\<open>cachedToken.token && Date.now() < cachedToken.expiry\<close>, giving the token to return.\<close>

definition validToken :: "credential \<Rightarrow> int \<Rightarrow> string option" where
  "validToken c t =
     (case token c of
        None \<Rightarrow> None
      | Some tok \<Rightarrow> if tok \<noteq> [] \<and> t < expiry c then Some tok else None)"

text \<open>Leaving the refresh by an exception: \<open>catch\<close> rethrows, \<open>finally\<close> clears the lock.\<close>

definition refreshFails ::
  "js_error \<Rightarrow> auth_state \<Rightarrow> effect list \<Rightarrow> (js_error + string) \<times> auth_state \<times> effect list" where
  "refreshFails e st trace = (Inl e, st\<lparr>tokenRefreshPromise := None\<rparr>, trace)"

text \<open>The second half of the refresh, from \<open>// Enable the token\<close> on.\<close>

definition enableToken ::
  "auth_world \<Rightarrow> auth_state \<Rightarrow> effect list \<Rightarrow> string \<Rightarrow>
     (js_error + string) \<times> auth_state \<times> effect list" where
  "enableToken w st trace tok =
     (let trace1 = trace @ [EnableToken tok]
      in case enableResult w of
           Rejects e \<Rightarrow> refreshFails e st trace1
         | Resolves enableResponse \<Rightarrow>
             if \<not> ok enableResponse then
               (case bodyText enableResponse of
                  Inl e \<Rightarrow> refreshFails e st trace1
                | Inr errorText \<Rightarrow>
                    refreshFails (Error (''Failed to enable token: '' @
                      showNat (status enableResponse) @ '' '' @ errorText)) st trace1)
             else
               (let c = \<lparr> token = Some tok,
                           expiry = nowAtCache w + 6 * 24 * 60 * 60 * 1000 \<rparr>
                in (Inr tok,
                    st\<lparr>cachedToken := c, tokenRefreshPromise := None\<rparr>,
                    trace1 @ [SaveTokenToDisk c])))"

text \<open>
  The refresh (the \<open>async\<close> function stored in \<open>tokenRefreshPromise\<close>, awaited by the
  caller that started it).
\<close>

definition refreshToken ::
  "auth_world \<Rightarrow> auth_state \<Rightarrow> (js_error + string) \<times> auth_state \<times> effect list" where
  "refreshToken w st =
     (let trace0 = [GenerateToken (case token (cachedToken st) of
                                     None \<Rightarrow> [] | Some old \<Rightarrow> old)]
      in case generateResult w of
           Rejects e \<Rightarrow> refreshFails e st trace0
         | Resolves response \<Rightarrow>
             if \<not> ok response then
               (case bodyText response of
                  Inl e \<Rightarrow> refreshFails e st trace0
                | Inr errorText \<Rightarrow>
                    refreshFails (Error (''Failed to get auth token: '' @
                      showNat (status response) @ '' '' @ errorText)) st trace0)
             else
               (case generateToken w of
                  Inl e \<Rightarrow> refreshFails e st trace0
                | Inr None \<Rightarrow> refreshFails (Error ''Token not found in API response'') st trace0
                | Inr (Some tok) \<Rightarrow>
                    if tok = [] then
                      refreshFails (Error ''Token not found in API response'') st trace0
                    else enableToken w st trace0 tok))"

text \<open>From \<open>// Start token refresh and store the promise\<close> on.\<close>

definition startRefresh ::
  "env \<Rightarrow> auth_world \<Rightarrow> auth_state \<Rightarrow> (js_error + string) \<times> auth_state \<times> effect list" where
  "startRefresh e w st =
     (if \<not> truthy (PRAGATI_API_BASE_URL e) \<or> \<not> truthy (PRAGATI_API_KEY e) then
        (Inl (Error ''PRAGATI_API_BASE_URL or PRAGATI_API_KEY not configured''), st, [])
      else refreshToken w st)"

definition getAuthToken ::
  "env \<Rightarrow> auth_world \<Rightarrow> auth_state \<Rightarrow> (js_error + string) \<times> auth_state \<times> effect list" where
  "getAuthToken e w st =
     (case validToken (cachedToken st) (now w) of
        Some tok \<Rightarrow> (Inr tok, st, [])
      | None \<Rightarrow>
          (case tokenRefreshPromise st of
             None \<Rightarrow> startRefresh e w st
           | Some (Promise (Inl err)) \<Rightarrow> (Inl err, st\<lparr>tokenRefreshPromise := None\<rparr>, [])
           | Some (Promise (Inr c)) \<Rightarrow>
               (let st1 = st\<lparr>cachedToken := c, tokenRefreshPromise := None\<rparr>
                in case validToken (cachedToken st1) (nowAfterWait w) of
                     Some tok \<Rightarrow> (Inr tok, st1, [])
                   | None \<Rightarrow> startRefresh e w st1)))"

subsection \<open>Concurrent callers on the event loop\<close>

text \<open>
  Several calls of \<open>getAuthToken\<close> share the module state. JavaScript runs each piece of
  an \<open>async\<close> function, from one \<open>await\<close> to the next, without interruption, so a run
  is a sequence of events: a new call, or the gateway's answer to a \<open>fetch\<close> of a
  pending refresh. A call returns at once (valid cache, or missing configuration), or
  suspends on the promise it finds in \<open>tokenRefreshPromise\<close> (line 53, a \<open>Waiter\<close>), or
  begins a refresh: the \<open>async\<close> arrow function runs up to its first \<open>await\<close>, which
  issues the generate call, the promise is stored in \<open>tokenRefreshPromise\<close>, and the
  caller suspends on it at line 128 (the \<open>Leader\<close>). A pending refresh is suspended at
  its generate call or, holding the new token, at its enable call. Callers are numbered in
  the order of their calls, promises in the order of their creation.
\<close>

datatype waiting = Leader nat | Waiter nat

datatype phase = AwaitGenerate | AwaitEnable string

record pending =
  phase :: phase
  awaiting :: "waiting list"

record system =
  cached :: credential
  lock :: "nat option"
  promises :: "(nat \<times> pending) list"
  nextPromise :: nat
  nextCaller :: nat
  returned :: "(nat \<times> (js_error + string)) list"
  log :: "effect list"

text \<open>
  An event: \<open>getAuthToken()\<close> is called (with the clock reading of its first test); the
  generate call of a pending refresh settles (with what \<open>(await response.json()).token\<close>
  gives, and the clock when the callers resume); its enable call settles (with the clock
  when the token is cached and the clock when the callers resume).
\<close>

datatype event =
    Call int
  | GenerateSettles nat fetch_result "js_error + string option" int
  | EnableSettles nat fetch_result int int

definition returns :: "nat \<Rightarrow> js_error + string \<Rightarrow> system \<Rightarrow> system" where
  "returns c outcome s = s\<lparr>returned := returned s @ [(c, outcome)]\<rparr>"

text \<open>From \<open>// Start token refresh and store the promise\<close> to the first \<open>await\<close>.\<close>

definition beginRefresh :: "env \<Rightarrow> nat \<Rightarrow> system \<Rightarrow> system" where
  "beginRefresh e c s =
     (if \<not> truthy (PRAGATI_API_BASE_URL e) \<or> \<not> truthy (PRAGATI_API_KEY e) then
        returns c (Inl (Error ''PRAGATI_API_BASE_URL or PRAGATI_API_KEY not configured'')) s
      else
        s\<lparr>lock := Some (nextPromise s),
          promises := promises s @
            [(nextPromise s, \<lparr> phase = AwaitGenerate, awaiting = [Leader c] \<rparr>)],
          nextPromise := nextPromise s + 1,
          log := log s @ [GenerateToken (case token (cached s) of
                                           None \<Rightarrow> [] | Some old \<Rightarrow> old)]\<rparr>)"

text \<open>The call of caller \<open>c\<close>, up to its first \<open>await\<close> or its \<open>return\<close>.\<close>

definition enter :: "env \<Rightarrow> int \<Rightarrow> nat \<Rightarrow> system \<Rightarrow> system" where
  "enter e t c s =
     (case validToken (cached s) t of
        Some tok \<Rightarrow> returns c (Inr tok) s
      | None \<Rightarrow>
          (case lock s of
             Some p \<Rightarrow>
               s\<lparr>promises :=
                   AList.map_entry p (\<lambda>pd. pd\<lparr>awaiting := awaiting pd @ [Waiter c]\<rparr>)
                     (promises s)\<rparr>
           | None \<Rightarrow> beginRefresh e c s))"

text \<open>
  A promise has settled: the callers awaiting it resume in the order in which they
  registered. The leader returns or rethrows the outcome. A waiter rethrows a rejection;
  after a fulfilment it tests the cache again and, should it still be invalid, goes on to
  begin a refresh of its own (it does not look at \<open>tokenRefreshPromise\<close> again).
\<close>

fun resume :: "env \<Rightarrow> int \<Rightarrow> js_error + string \<Rightarrow> waiting list \<Rightarrow> system \<Rightarrow> system" where
  "resume e t outcome [] s = s"
| "resume e t outcome (Leader c # ws) s = resume e t outcome ws (returns c outcome s)"
| "resume e t (Inl err) (Waiter c # ws) s = resume e t (Inl err) ws (returns c (Inl err) s)"
| "resume e t (Inr v) (Waiter c # ws) s =
     resume e t (Inr v) ws
       (case validToken (cached s) t of
          Some tok \<Rightarrow> returns c (Inr tok) s
        | None \<Rightarrow> beginRefresh e c s)"

text \<open>
  The refresh function ends: its \<open>finally\<close> block sets \<open>tokenRefreshPromise = null\<close>, the
  promise settles and the callers awaiting it resume.
\<close>

definition settle :: "env \<Rightarrow> int \<Rightarrow> nat \<Rightarrow> pending \<Rightarrow> js_error + string \<Rightarrow> system \<Rightarrow> system" where
  "settle e t p pd outcome s =
     resume e t outcome (awaiting pd)
       (s\<lparr>lock := None, promises := AList.delete p (promises s)\<rparr>)"

text \<open>The refresh function from the answer to its generate call to its next \<open>await\<close>.\<close>

definition generateSettles ::
  "env \<Rightarrow> nat \<Rightarrow> pending \<Rightarrow> fetch_result \<Rightarrow> js_error + string option \<Rightarrow> int \<Rightarrow> system \<Rightarrow> system" where
  "generateSettles e p pd fetched tokenField t s =
     (case fetched of
        Rejects err \<Rightarrow> settle e t p pd (Inl err) s
      | Resolves response \<Rightarrow>
          if \<not> ok response then
            (case bodyText response of
               Inl err \<Rightarrow> settle e t p pd (Inl err) s
             | Inr errorText \<Rightarrow>
                 settle e t p pd
                   (Inl (Error (''Failed to get auth token: '' @
                      showNat (status response) @ '' '' @ errorText))) s)
          else
            (case tokenField of
               Inl err \<Rightarrow> settle e t p pd (Inl err) s
             | Inr None \<Rightarrow> settle e t p pd (Inl (Error ''Token not found in API response'')) s
             | Inr (Some tok) \<Rightarrow>
                 if tok = [] then
                   settle e t p pd (Inl (Error ''Token not found in API response'')) s
                 else
                   s\<lparr>promises := AList.update p (pd\<lparr>phase := AwaitEnable tok\<rparr>) (promises s),
                     log := log s @ [EnableToken tok]\<rparr>))"

text \<open>The refresh function from the answer to its enable call to its end.\<close>

definition enableSettles ::
  "env \<Rightarrow> nat \<Rightarrow> pending \<Rightarrow> string \<Rightarrow> fetch_result \<Rightarrow> int \<Rightarrow> int \<Rightarrow> system \<Rightarrow> system" where
  "enableSettles e p pd tok fetched tc t s =
     (case fetched of
        Rejects err \<Rightarrow> settle e t p pd (Inl err) s
      | Resolves enableResponse \<Rightarrow>
          if \<not> ok enableResponse then
            (case bodyText enableResponse of
               Inl err \<Rightarrow> settle e t p pd (Inl err) s
             | Inr errorText \<Rightarrow>
                 settle e t p pd
                   (Inl (Error (''Failed to enable token: '' @
                      showNat (status enableResponse) @ '' '' @ errorText))) s)
          else
            (let c = \<lparr> token = Some tok, expiry = tc + 6 * 24 * 60 * 60 * 1000 \<rparr>
             in settle e t p pd (Inr tok)
                  (s\<lparr>cached := c, log := log s @ [SaveTokenToDisk c]\<rparr>)))"

text \<open>An answer for a promise that is not pending, or not at that call, changes nothing.\<close>

fun step :: "env \<Rightarrow> system \<Rightarrow> event \<Rightarrow> system" where
  "step e s (Call t) = enter e t (nextCaller s) (s\<lparr>nextCaller := nextCaller s + 1\<rparr>)"
| "step e s (GenerateSettles p fetched tokenField t) =
     (case map_of (promises s) p of
        None \<Rightarrow> s
      | Some pd \<Rightarrow>
          (case phase pd of
             AwaitGenerate \<Rightarrow> generateSettles e p pd fetched tokenField t s
           | AwaitEnable tok \<Rightarrow> s))"
| "step e s (EnableSettles p fetched tc t) =
     (case map_of (promises s) p of
        None \<Rightarrow> s
      | Some pd \<Rightarrow>
          (case phase pd of
             AwaitGenerate \<Rightarrow> s
           | AwaitEnable tok \<Rightarrow> enableSettles e p pd tok fetched tc t s))"

definition run :: "env \<Rightarrow> event list \<Rightarrow> system \<Rightarrow> system" where
  "run e events s = foldl (step e) s events"

text \<open>The module after start-up, with the credential loaded from disk.\<close>

definition idle :: "credential \<Rightarrow> system" where
  "idle c = \<lparr> cached = c, lock = None, promises = [], nextPromise = 0, nextCaller = 0,
              returned = [], log = [] \<rparr>"

subsection \<open>Response parsing\<close>

definition notAmp :: "char \<Rightarrow> bool" where
  "notAmp c = (c \<noteq> CHR ''&'')"

text \<open>
  \<open>responseText.match(/key([^&]+)/)\<close> for a literal \<open>key\<close> such as \<open>guid=\<close>: the
  leftmost position where \<open>key\<close> is followed by at least one character other than
  \<open>&\<close>; the capture group is the longest such run. The result is the capture group, or
  \<open>None\<close> when \<open>match\<close> returns \<open>null\<close>.
\<close>

fun matchField :: "string \<Rightarrow> string \<Rightarrow> string option" where
  "matchField key [] = None"
| "matchField key (c # cs) =
     (if prefix key (c # cs) \<and> takeWhile notAmp (drop (length key) (c # cs)) \<noteq> []
      then Some (takeWhile notAmp (drop (length key) (c # cs)))
      else matchField key cs)"

text \<open>
  \<open>str.split(',')\<close>: the pieces between separators, empty pieces included; the
  accumulator holds the current piece reversed. A string with no separator gives one piece.
\<close>

fun splitAcc :: "char \<Rightarrow> string \<Rightarrow> string \<Rightarrow> string list" where
  "splitAcc d acc [] = [rev acc]"
| "splitAcc d acc (c # cs) =
     (if c = d then rev acc # splitAcc d [] cs else splitAcc d (c # acc) cs)"

definition split :: "string \<Rightarrow> char \<Rightarrow> string list" where
  "split s d = splitAcc d [] s"

definition errorMessages :: "string js_object" where
  "errorMessages =
     [(''1'', ''Invalid Receiver - Mobile number is invalid or greater than 16 digits''),
      (''2'', ''Invalid Sender - Wrong sender ID or greater than 16 digits''),
      (''3'', ''Invalid Message - Blank message or template does not match DLT template ID''),
      (''4'', ''Service not available - Operator or server down''),
      (''5'', ''Authorization failed - Wrong credentials''),
      (''6'', ''Contract Expired''),
      (''7'', ''Credit Expired - Account balance is zero''),
      (''8'', ''Empty Receiver - No recipient number provided''),
      (''14'', ''Non-compliant message - Violates TRAI guidelines or template mismatch'')]"

text \<open>
  The value of \<open>errorMessage\<close>: \<open>null\<close>, a string, or a member inherited from
  \<open>Object.prototype\<close> (named by its key).
\<close>

datatype message_value = Null | Text string | PrototypeMember string

record parsed_result =
  success :: bool
  guid :: "string option"
  errorCode :: string
  errorMessage :: message_value
  seqno :: "string option"

text \<open>\<open>errorMessages[code] || `Unknown error code: ${code}`\<close>\<close>

definition errorMessageFor :: "string \<Rightarrow> message_value" where
  "errorMessageFor code =
     (case getProp errorMessages code of
        Own m \<Rightarrow> if m \<noteq> [] then Text m else Text (''Unknown error code: '' @ code)
      | Inherited k \<Rightarrow> PrototypeMember k
      | Undefined \<Rightarrow> Text (''Unknown error code: '' @ code))"

text \<open>\<open>seqnos[index] || null\<close>: out of range reads \<open>undefined\<close>, and an empty string is falsy.\<close>

definition seqnoAt :: "string list \<Rightarrow> nat \<Rightarrow> string option" where
  "seqnoAt seqnos index =
     (if index < length seqnos \<and> seqnos ! index \<noteq> [] then Some (seqnos ! index) else None)"

definition parsePragatiResponse :: "string \<Rightarrow> nat \<Rightarrow> parsed_result list" where
  "parsePragatiResponse responseText recipientCount =
     (let guid = matchField ''guid='' responseText;
          errorCodesStr = (case matchField ''errorcode='' responseText of
                             Some s \<Rightarrow> s | None \<Rightarrow> ''0'');
          seqnos = (case matchField ''seqno='' responseText of
                      Some s \<Rightarrow> split s CHR '','' | None \<Rightarrow> []);
          errorCodes = split errorCodesStr CHR '',''
      in map (\<lambda>(code, index).
                \<lparr> success = (code = ''0''),
                  guid = (if code = ''0'' then guid else None),
                  errorCode = code,
                  errorMessage = (if code \<noteq> ''0'' then errorMessageFor code else Null),
                  seqno = seqnoAt seqnos index \<rparr>)
             (zip errorCodes [0 ..< length errorCodes]))"

subsection \<open>Templates and grouping\<close>

record recipient =
  phone :: "string option"
  message :: "string option"
  templateVars :: "string list option"

text \<open>
  \<open>template.replace(/\{\#var\#\}/g, () => String(vars[idx++] ?? ''))\<close>: the markers are
  replaced from left to right, a missing value by the empty string; replaced text is not
  scanned again.
\<close>

fun applyTemplate :: "string \<Rightarrow> string list \<Rightarrow> string" where
  "applyTemplate [] vars = []"
| "applyTemplate (c # cs) vars =
     (if prefix ''{#var#}'' (c # cs) then
        (case vars of
           [] \<Rightarrow> applyTemplate (drop 6 cs) []
         | v # rest \<Rightarrow> v @ applyTemplate (drop 6 cs) rest)
      else c # applyTemplate cs vars)"

text \<open>
  \<open>recipient.message || (template ? applyTemplate(template, recipient.templateVars || []) : '')\<close>
\<close>

definition resolveMessage :: "string option \<Rightarrow> recipient \<Rightarrow> string" where
  "resolveMessage template r =
     (case message r of
        Some m \<Rightarrow>
          if m \<noteq> [] then m
          else (case template of
                  Some t \<Rightarrow> if t \<noteq> [] then
                              applyTemplate t (case templateVars r of None \<Rightarrow> [] | Some vs \<Rightarrow> vs)
                            else []
                | None \<Rightarrow> [])
      | None \<Rightarrow>
          (case template of
             Some t \<Rightarrow> if t \<noteq> [] then
                         applyTemplate t (case templateVars r of None \<Rightarrow> [] | Some vs \<Rightarrow> vs)
                       else []
           | None \<Rightarrow> []))"

text \<open>
  The grouping loop. \<open>groupedByMessage[messageText]\<close> is an own array, or a member
  inherited from \<open>Object.prototype\<close> (truthy, so no array is created, and it has no
  \<open>push\<close>: the call throws a \<open>TypeError\<close>), or \<open>undefined\<close> (a new property is
  created after the existing ones). \<open>push\<close> changes the array in place, which leaves
  the property where it is.
\<close>

fun groupByMessage ::
  "string option \<Rightarrow> recipient list \<Rightarrow> recipient list js_object \<Rightarrow>
     js_error + recipient list js_object" where
  "groupByMessage template [] groupedByMessage = Inr groupedByMessage"
| "groupByMessage template (r # rs) groupedByMessage =
     (let messageText = resolveMessage template r
      in case getProp groupedByMessage messageText of
           Own g \<Rightarrow>
             groupByMessage template rs (AList.update messageText (g @ [r]) groupedByMessage)
         | Inherited k \<Rightarrow>
             Inl (TypeError ''groupedByMessage[messageText].push is not a function'')
         | Undefined \<Rightarrow>
             groupByMessage template rs (AList.update messageText [r] groupedByMessage))"

text \<open>
  \<open>Object.entries\<close> lists the own properties in the order of
  \<open>OrdinaryOwnPropertyKeys\<close> (ECMAScript 10.1.11.1): first the keys that are array
  indices (canonical decimal numerals below \<open>2^32 - 1\<close>) in ascending numeric order, then
  the other string keys in the order of their creation.
\<close>

definition digitValue :: "char \<Rightarrow> nat" where
  "digitValue c = of_char c - 48"

definition indexValue :: "string \<Rightarrow> nat" where
  "indexValue s = foldl (\<lambda>n c. 10 * n + digitValue c) 0 s"

definition isArrayIndex :: "string \<Rightarrow> bool" where
  "isArrayIndex s =
     (s \<noteq> [] \<and> list_all isDigit s \<and> (s = ''0'' \<or> hd s \<noteq> CHR ''0'')
      \<and> indexValue s < 4294967295)"

definition entries :: "'a js_object \<Rightarrow> (string \<times> 'a) list" where
  "entries obj =
     sort_key (\<lambda>p. indexValue (fst p)) (filter (\<lambda>p. isArrayIndex (fst p)) obj)
     @ filter (\<lambda>p. \<not> isArrayIndex (fst p)) obj"

subsection \<open>Batches\<close>

text \<open>
  A batch \<open>{ messageText, recipients: group }\<close>; the member list carries the name the
  send loop gives it.
\<close>

record batch =
  messageText :: string
  members :: "recipient list"

text \<open>\<open>for (let i = 0; i < group.length; i += 100) batches.push({..., group.slice(i, i + 100)})\<close>\<close>

function chunkLoop :: "string \<Rightarrow> recipient list \<Rightarrow> nat \<Rightarrow> batch list" where
  "chunkLoop msg g i =
     (if i < length g then
        \<lparr> messageText = msg, members = take 100 (drop i g) \<rparr> # chunkLoop msg g (i + 100)
      else [])"
  by pat_completeness auto
termination
  by (relation "measure (\<lambda>(msg, g, i). length g - i)") auto

declare chunkLoop.simps [simp del]

definition batchesOfGroup :: "string \<times> recipient list \<Rightarrow> batch list" where
  "batchesOfGroup entry =
     (case entry of
        (msg, g) \<Rightarrow>
          if length g \<le> 100 then [\<lparr> messageText = msg, members = g \<rparr>]
          else chunkLoop msg g 0)"

definition makeBatches :: "recipient list js_object \<Rightarrow> batch list" where
  "makeBatches groupedByMessage = concat (map batchesOfGroup (entries groupedByMessage))"

subsection \<open>Sending the batches\<close>

text \<open>
  One entry of the response's \<open>results\<close> array; a key the source leaves out is
  \<open>None\<close>. The fields are those of the \<open>SmsResult\<close> typedef, prefixed with \<open>r_\<close>.
\<close>

record sms_result =
  r_phone :: "string option"
  r_success :: bool
  r_guid :: "string option"
  r_seqno :: "string option"
  r_error :: "message_value option"
  r_errorCode :: "string option"

text \<open>The three shapes of object the loop pushes.\<close>

definition failedResult :: "string \<Rightarrow> recipient \<Rightarrow> sms_result" where
  "failedResult err r =
     \<lparr> r_phone = phone r, r_success = False, r_guid = None, r_seqno = None,
       r_error = Some (Text err), r_errorCode = None \<rparr>"

definition parsedToResult :: "recipient \<Rightarrow> parsed_result \<Rightarrow> sms_result" where
  "parsedToResult r parsed =
     (if success parsed then
        \<lparr> r_phone = phone r, r_success = True, r_guid = guid parsed, r_seqno = seqno parsed,
          r_error = None, r_errorCode = None \<rparr>
      else
        \<lparr> r_phone = phone r, r_success = False, r_guid = None, r_seqno = None,
          r_error = Some (errorMessage parsed), r_errorCode = Some (errorCode parsed) \<rparr>)"

text \<open>
  \<open>group.forEach((recipient, index) => ...)\<close> with
  \<open>parsed = parsedResults[index] || parsedResults[0]\<close>. Were \<open>parsedResults\<close> empty, the
  first member would read \<open>undefined.success\<close>, and the \<open>TypeError\<close> would reach the
  batch's \<open>catch\<close> before anything was pushed.
\<close>

definition matchResults :: "recipient list \<Rightarrow> parsed_result list \<Rightarrow> js_error + sms_result list" where
  "matchResults g parsedResults =
     (if parsedResults = [] \<and> g \<noteq> [] then
        Inl (TypeError ''Cannot read properties of undefined'')
      else
        Inr (map (\<lambda>(r, index).
                    parsedToResult r
                      (if index < length parsedResults then parsedResults ! index
                       else parsedResults ! 0))
                 (zip g [0 ..< length g])))"

text \<open>The \<open>try\<close>/\<open>catch\<close> of one batch, given what its \<open>fetch\<close> does: the results pushed.\<close>

definition sendBatch :: "batch \<Rightarrow> fetch_result \<Rightarrow> sms_result list" where
  "sendBatch b fetched =
     (case fetched of
        Rejects e \<Rightarrow> map (failedResult (errorMessageOf e)) (members b)
      | Resolves response \<Rightarrow>
          (case bodyText response of
             Inl e \<Rightarrow> map (failedResult (errorMessageOf e)) (members b)
           | Inr responseText \<Rightarrow>
               (let parsedResults = parsePragatiResponse responseText (length (members b))
                in if \<not> ok response then
                     map (failedResult (''HTTP '' @ showNat (status response) @ '': '' @
                                        responseText)) (members b)
                   else
                     (case matchResults (members b) parsedResults of
                        Inl e \<Rightarrow> map (failedResult (errorMessageOf e)) (members b)
                      | Inr rs \<Rightarrow> rs))))"

text \<open>\<open>parts.join(',')\<close>\<close>

fun join :: "string list \<Rightarrow> string \<Rightarrow> string" where
  "join [] sep = []"
| "join [x] sep = x"
| "join (x # y # ys) sep = x @ sep @ join (y # ys) sep"

text \<open>
  \<open>group.map(r => formatPhoneWithCountryCode(r.phone)).join(',')\<close>, which stands before
  the batch's \<open>try\<close>: a member without a phone makes \<open>phone.replace\<close> throw.
\<close>

fun formatPhones :: "recipient list \<Rightarrow> js_error + string list" where
  "formatPhones [] = Inr []"
| "formatPhones (r # rs) =
     (case phone r of
        None \<Rightarrow> Inl (TypeError ''Cannot read properties of undefined'')
      | Some p \<Rightarrow>
          (case formatPhones rs of
             Inl e \<Rightarrow> Inl e
           | Inr ps \<Rightarrow> Inr (formatPhoneWithCountryCode p # ps)))"

text \<open>
  The send loop from \<open>batchIndex\<close> on. \<open>gateway k\<close> is what the \<open>fetch\<close> of batch
  \<open>k\<close> does. The loop returns the exception that left it, if any, with the results and
  the effects so far.
\<close>

fun sendBatches ::
  "(nat \<Rightarrow> fetch_result) \<Rightarrow> string \<Rightarrow> string \<Rightarrow> string \<Rightarrow> nat \<Rightarrow> batch list \<Rightarrow>
     sms_result list \<Rightarrow> effect list \<Rightarrow> js_error option \<times> sms_result list \<times> effect list" where
  "sendBatches gateway senderId templateid tok batchIndex [] results trace =
     (None, results, trace)"
| "sendBatches gateway senderId templateid tok batchIndex (b # bs) results trace =
     (case formatPhones (members b) of
        Inl e \<Rightarrow> (Some e, results, trace)
      | Inr phones \<Rightarrow>
          sendBatches gateway senderId templateid tok (batchIndex + 1) bs
            (results @ sendBatch b (gateway batchIndex))
            (trace @ [SendSMS (join phones '','') senderId (messageText b) templateid tok,
                      Delay 500]))"

subsection \<open>The request handlers\<close>

datatype reply =
    BadRequest string string
  | Report string nat nat nat "sms_result list"
  | Next js_error

record bulk_body =
  template :: "string option"
  templateid :: "string option"
  recipients :: "recipient list option"

text \<open>The validation loop; \<open>None\<close> when every recipient passes.\<close>

fun validateRecipients :: "string option \<Rightarrow> recipient list \<Rightarrow> reply option" where
  "validateRecipients tpl [] = None"
| "validateRecipients tpl (r # rs) =
     (case phone r of
        None \<Rightarrow> Some (BadRequest ''Invalid phone number'' ''Invalid phone number: missing'')
      | Some p \<Rightarrow>
          if p = [] then
            Some (BadRequest ''Invalid phone number'' ''Invalid phone number: missing'')
          else if \<not> validatePhoneNumber p then
            Some (BadRequest ''Invalid phone number'' (''Invalid phone number: '' @ p))
          else if \<not> truthy (message r) \<and> \<not> truthy tpl then
            Some (BadRequest ''Invalid recipient''
                    ''Each recipient must have a message, or provide a template'')
          else validateRecipients tpl rs)"

text \<open>The response after the loop: the counts and the results.\<close>

definition report :: "sms_result list \<Rightarrow> reply" where
  "report results =
     (let successCount = length (filter r_success results);
          failedCount = length results - successCount
      in Report (''Sent '' @ showNat successCount @ '' SMS, '' @ showNat failedCount @ '' failed'')
           (length results) successCount failedCount results)"

text \<open>
  \<open>sendBulkSMS\<close>: the reply (\<open>res.status(400).json\<close>, \<open>res.json\<close> or \<open>next(error)\<close>),
  the module state and the effects. A recipient list that is missing or not an array is
  \<open>None\<close>.
\<close>

definition sendBulkSMS ::
  "env \<Rightarrow> auth_world \<Rightarrow> (nat \<Rightarrow> fetch_result) \<Rightarrow> auth_state \<Rightarrow> bulk_body \<Rightarrow>
     reply \<times> auth_state \<times> effect list" where
  "sendBulkSMS e w gateway st body =
     (case recipients body of
        None \<Rightarrow> (BadRequest ''Invalid request'' ''recipients must be a non-empty array'', st, [])
      | Some rs \<Rightarrow>
          if rs = [] then
            (BadRequest ''Invalid request'' ''recipients must be a non-empty array'', st, [])
          else if length rs > 1000 then
            (BadRequest ''Too many recipients'' ''Maximum 1000 recipients per request'', st, [])
          else
            (case validateRecipients (template body) rs of
               Some bad \<Rightarrow> (bad, st, [])
             | None \<Rightarrow>
                 (case (PRAGATI_API_BASE_URL e, SMS_SENDER_ID e, templateid body) of
                    (Some url, Some senderId, Some tid) \<Rightarrow>
                      if url = [] \<or> senderId = [] \<or> tid = [] then
                        (Next (Error ''SMS configuration incomplete''), st, [])
                      else
                        (case getAuthToken e w st of
                           (Inl err, st1, trace1) \<Rightarrow> (Next err, st1, trace1)
                         | (Inr tok, st1, trace1) \<Rightarrow>
                             (case groupByMessage (template body) rs [] of
                                Inl err \<Rightarrow> (Next err, st1, trace1)
                              | Inr groupedByMessage \<Rightarrow>
                                  (case sendBatches gateway senderId tid tok 0
                                          (makeBatches groupedByMessage) [] trace1 of
                                     (Some err, results, trace2) \<Rightarrow> (Next err, st1, trace2)
                                   | (None, results, trace2) \<Rightarrow>
                                       (report results, st1, trace2))))
                  | _ \<Rightarrow> (Next (Error ''SMS configuration incomplete''), st, []))))"

text \<open>
  \<open>sendSingleSMS\<close>, with \<open>phone\<close> and \<open>message\<close> read from the request body. The body
  it hands to \<open>sendBulkSMS\<close> has no \<open>template\<close> and no \<open>templateid\<close>.
\<close>

definition sendSingleSMS ::
  "env \<Rightarrow> auth_world \<Rightarrow> (nat \<Rightarrow> fetch_result) \<Rightarrow> auth_state \<Rightarrow>
     string option \<Rightarrow> string option \<Rightarrow> reply \<times> auth_state \<times> effect list" where
  "sendSingleSMS e w gateway st phone_in message_in =
     (case (phone_in, message_in) of
        (Some p, Some m) \<Rightarrow>
          if p = [] \<or> m = [] then
            (BadRequest ''Invalid request'' ''phone and message are required'', st, [])
          else if \<not> validatePhoneNumber p then
            (BadRequest ''Invalid phone number''
               ''Phone number must be a valid 10-digit Indian mobile number'', st, [])
          else
            sendBulkSMS e w gateway st
              \<lparr> template = None, templateid = None,
                recipients = Some [\<lparr> phone = Some p, message = Some m, templateVars = None \<rparr>] \<rparr>
      | _ \<Rightarrow> (BadRequest ''Invalid request'' ''phone and message are required'', st, []))"

subsection \<open>Notions used in the statements\<close>

text \<open>
  The generate call fails: the \<open>fetch\<close> rejects, the status is not a success, the body
  is not JSON, or it carries no token. The enable call fails: the \<open>fetch\<close> rejects or the
  status is not a success.
\<close>

definition generateFails :: "auth_world \<Rightarrow> bool" where
  "generateFails w =
     (case generateResult w of
        Rejects e \<Rightarrow> True
      | Resolves response \<Rightarrow>
          \<not> ok response \<or> (case generateToken w of Inl e \<Rightarrow> True | Inr t \<Rightarrow> \<not> truthy t))"

definition enableFails :: "auth_world \<Rightarrow> bool" where
  "enableFails w =
     (case enableResult w of Rejects e \<Rightarrow> True | Resolves response \<Rightarrow> \<not> ok response)"

text \<open>
  How a completed refresh settles its promise, and the module state that a caller finds
  while the refresh started from \<open>st\<close> and answered by \<open>w\<close> is in flight.
\<close>

fun settlement :: "(js_error + string) \<times> auth_state \<times> effect list \<Rightarrow> promise" where
  "settlement (Inl e, st, trace) = Promise (Inl e)"
| "settlement (Inr tok, st, trace) = Promise (Inr (cachedToken st))"

definition whileInFlight :: "auth_world \<Rightarrow> auth_state \<Rightarrow> auth_state" where
  "whileInFlight w st = st\<lparr>tokenRefreshPromise := Some (settlement (refreshToken w st))\<rparr>"

text \<open>
  The phones a batch needs for its recipient list are all there (the validation loop of
  \<open>sendBulkSMS\<close> sees to it).
\<close>

definition phonesPresent :: "batch list \<Rightarrow> bool" where
  "phonesPresent bs = list_all (\<lambda>b. list_all (\<lambda>r. phone r \<noteq> None) (members b)) bs"

text \<open>
  A batch fails as a whole, with this error text: the \<open>fetch\<close> or the read of the body
  throws (the exception's message), or the status is not a success (the status and the
  raw body).
\<close>

definition batchFailure :: "fetch_result \<Rightarrow> string option" where
  "batchFailure fetched =
     (case fetched of
        Rejects e \<Rightarrow> Some (errorMessageOf e)
      | Resolves response \<Rightarrow>
          (case bodyText response of
             Inl e \<Rightarrow> Some (errorMessageOf e)
           | Inr responseText \<Rightarrow>
               if \<not> ok response then
                 Some (''HTTP '' @ showNat (status response) @ '': '' @ responseText)
               else None))"

definition isDelay :: "effect \<Rightarrow> bool" where
  "isDelay x = (case x of Delay ms \<Rightarrow> True | _ \<Rightarrow> False)"

text \<open>The effects of one pass of the send loop.\<close>

definition sendEffects :: "string \<Rightarrow> string \<Rightarrow> string \<Rightarrow> batch \<Rightarrow> effect list" where
  "sendEffects s t tok b =
     (case formatPhones (members b) of
        Inl e \<Rightarrow> []
      | Inr phones \<Rightarrow> [SendSMS (join phones '','') s (messageText b) t tok, Delay 500])"

text \<open>
  The partition the specification describes: the distinct resolved texts in the order of
  their first occurrence, each with the recipients that resolve to it, in their original
  order.
\<close>

fun firstOccurrences :: "'a list \<Rightarrow> 'a list" where
  "firstOccurrences [] = []"
| "firstOccurrences (x # xs) = x # filter (\<lambda>y. y \<noteq> x) (firstOccurrences xs)"

definition groupsOf :: "string option \<Rightarrow> recipient list \<Rightarrow> recipient list js_object" where
  "groupsOf tpl rs =
     map (\<lambda>m. (m, filter (\<lambda>r. resolveMessage tpl r = m) rs))
         (firstOccurrences (map (resolveMessage tpl) rs))"

text \<open>
  The split the specification describes: consecutive chunks of 100, the \<open>k\<close>-th chunk
  being members \<open>100 k\<close> to \<open>100 k + 99\<close>, the last one possibly shorter.
\<close>

definition chunksOf :: "string \<times> recipient list \<Rightarrow> batch list" where
  "chunksOf entry =
     (case entry of
        (msg, g) \<Rightarrow>
          map (\<lambda>k. \<lparr> messageText = msg, members = take 100 (drop (100 * k) g) \<rparr>)
              [0 ..< (length g + 99) div 100])"

text \<open>The grouping loop's invariant: the groups so far, extended by the recipients to come.\<close>

definition mergeGroups ::
  "string option \<Rightarrow> recipient list js_object \<Rightarrow> recipient list \<Rightarrow> recipient list js_object" where
  "mergeGroups tpl acc rs =
     map (\<lambda>(m, g). (m, g @ filter (\<lambda>r. resolveMessage tpl r = m) rs)) acc
     @ map (\<lambda>m. (m, filter (\<lambda>r. resolveMessage tpl r = m) rs))
           (firstOccurrences (filter (\<lambda>m. m \<notin> fst ` set acc) (map (resolveMessage tpl) rs)))"

text \<open>
  What the answer to the generate call amounts to (an error, or the new token) and what
  the answer to the enable call amounts to (an error, or none); the callers numbered
  \<open>n\<close> to \<open>n + k - 1\<close>; the caller behind a suspended call; six days in milliseconds.
\<close>

definition generateOutcome :: "fetch_result \<Rightarrow> js_error + string option \<Rightarrow> js_error + string" where
  "generateOutcome fetched tokenField =
     (case fetched of
        Rejects err \<Rightarrow> Inl err
      | Resolves response \<Rightarrow>
          if \<not> ok response then
            (case bodyText response of
               Inl err \<Rightarrow> Inl err
             | Inr errorText \<Rightarrow>
                 Inl (Error (''Failed to get auth token: '' @
                        showNat (status response) @ '' '' @ errorText)))
          else
            (case tokenField of
               Inl err \<Rightarrow> Inl err
             | Inr None \<Rightarrow> Inl (Error ''Token not found in API response'')
             | Inr (Some tok) \<Rightarrow>
                 if tok = [] then Inl (Error ''Token not found in API response'') else Inr tok))"

definition enableOutcome :: "fetch_result \<Rightarrow> js_error option" where
  "enableOutcome fetched =
     (case fetched of
        Rejects err \<Rightarrow> Some err
      | Resolves response \<Rightarrow>
          if \<not> ok response then
            (case bodyText response of
               Inl err \<Rightarrow> Some err
             | Inr errorText \<Rightarrow>
                 Some (Error (''Failed to enable token: '' @
                         showNat (status response) @ '' '' @ errorText)))
          else None)"

fun callerIds :: "nat \<Rightarrow> nat \<Rightarrow> nat list" where
  "callerIds n 0 = []"
| "callerIds n (Suc k) = n # callerIds (Suc n) k"

fun callerOf :: "waiting \<Rightarrow> nat" where
  "callerOf (Leader c) = c"
| "callerOf (Waiter c) = c"

definition sixDays :: int where
  "sixDays = 6 * 24 * 60 * 60 * 1000"

subsection \<open>Example data\<close>

definition exampleEnv :: env where
  "exampleEnv =
     \<lparr> PRAGATI_API_BASE_URL = Some ''https://gateway.example'', PRAGATI_API_KEY = Some ''K'',
       SMS_SENDER_ID = Some ''JAINUN'' \<rparr>"

text \<open>A world in which the gateway issues \<open>T1\<close> and then refuses to enable it.\<close>

definition enableRefused :: auth_world where
  "enableRefused =
     \<lparr> now = 5000, nowAfterWait = 5002,
       generateResult = Resolves \<lparr> ok = True, status = 200, bodyText = Inr ''{token: T1}'' \<rparr>,
       generateToken = Inr (Some ''T1''),
       enableResult = Resolves \<lparr> ok = False, status = 500, bodyText = Inr ''down'' \<rparr>,
       nowAtCache = 5001 \<rparr>"

definition expiredState :: auth_state where
  "expiredState =
     \<lparr> cachedToken = \<lparr> token = Some ''T0'', expiry = 1000 \<rparr>, tokenRefreshPromise = None \<rparr>"

definition freshState :: auth_state where
  "freshState =
     \<lparr> cachedToken = \<lparr> token = Some ''T0'', expiry = 9000 \<rparr>, tokenRefreshPromise = None \<rparr>"

definition rHello :: recipient where
  "rHello = \<lparr> phone = Some ''9876543210'', message = Some ''hello'', templateVars = None \<rparr>"

definition rSeven :: recipient where
  "rSeven = \<lparr> phone = Some ''9876543211'', message = Some ''7'', templateVars = None \<rparr>"

definition rOther :: recipient where
  "rOther = \<lparr> phone = Some ''9123456789'', message = Some ''hello'', templateVars = None \<rparr>"

definition accepted :: fetch_result where
  "accepted =
     Resolves \<lparr> ok = True, status = 200, bodyText = Inr ''guid=G1&errorcode=0&seqno=911'' \<rparr>"

definition creditExpired :: http_response where
  "creditExpired = \<lparr> ok = True, status = 200, bodyText = Inr ''guid=G1&errorcode=7'' \<rparr>"

text \<open>A gateway whose second call (batch 1) loses the connection.\<close>

definition secondCallDrops :: "nat \<Rightarrow> fetch_result" where
  "secondCallDrops k = (if k = 1 then Rejects (Error ''socket hang up'') else accepted)"

definition singleRequest :: bulk_body where
  "singleRequest = \<lparr> template = None, templateid = Some ''1007'', recipients = Some [rHello] \<rparr>"

section \<open>Properties\<close>

subsection \<open>Phone validation and wire format\<close>

lemma list_all_isDigit_strip: "list_all isDigit (stripNonDigits p)"
  by (simp add: stripNonDigits_def list_all_iff)

lemma validatePhoneNumber_iff:
  "validatePhoneNumber p \<longleftrightarrow>
     length (stripNonDigits p) = 10 \<and> hd (stripNonDigits p) \<in> set ''6789''"
proof (cases "stripNonDigits p")
  case Nil
  then show ?thesis by (simp add: validatePhoneNumber_def)
next
  case (Cons c rest)
  have "list_all isDigit (c # rest)"
    using list_all_isDigit_strip [of p] Cons by simp
  then have "list_all isDigit rest" by simp
  with Cons show ?thesis
    by (auto simp add: validatePhoneNumber_def)
qed

lemma strip_plus91: "stripNonDigits ''+91 9876543210'' = ''919876543210''"
  by (simp add: stripNonDigits_def isDigit_def)

lemma strip_98765: "stripNonDigits ''98765'' = ''98765''"
  by (simp add: stripNonDigits_def isDigit_def)

lemma strip_5876543210: "stripNonDigits ''5876543210'' = ''5876543210''"
  by (simp add: stripNonDigits_def isDigit_def)

text \<open>
  C8 (as stated, refuted): the claim lists \<open>"+91 9876543210"\<close> as a phone that passes
  validation. Stripping the non-digits leaves the twelve digits \<open>919876543210\<close>, and the
  regular expression accepts exactly ten, so the validator rejects it.
\<close>

theorem C8_plus91_rejected:
  "\<not> validatePhoneNumber ''+91 9876543210''"
  by (simp add: validatePhoneNumber_def strip_plus91)

text \<open>
  C8 (amended): a phone validates iff its digits, after all non-digits are stripped, are
  exactly ten with the first in 6..9; \<open>"98765"\<close>, \<open>"5876543210"\<close> and
  \<open>"+91 9876543210"\<close> (twelve digits) all fail validation; the wire format strips the
  non-digits and prepends \<open>"91"\<close> iff the digits do not already start with it, which
  sends \<open>"+91 9876543210"\<close> to \<open>"919876543210"\<close>.
\<close>

theorem C8_validate_and_format:
  "(validatePhoneNumber p \<longleftrightarrow>
      length (stripNonDigits p) = 10 \<and> hd (stripNonDigits p) \<in> set ''6789'')
   \<and> \<not> validatePhoneNumber ''98765''
   \<and> \<not> validatePhoneNumber ''5876543210''
   \<and> \<not> validatePhoneNumber ''+91 9876543210''
   \<and> formatPhoneWithCountryCode ''+91 9876543210'' = ''919876543210''
   \<and> formatPhoneWithCountryCode p =
       (if prefix ''91'' (stripNonDigits p) then stripNonDigits p
        else ''91'' @ stripNonDigits p)"
proof -
  have a: "\<not> validatePhoneNumber ''98765''"
    by (simp add: validatePhoneNumber_def strip_98765)
  have b: "\<not> validatePhoneNumber ''5876543210''"
    by (simp add: validatePhoneNumber_def strip_5876543210)
  have c: "\<not> validatePhoneNumber ''+91 9876543210''"
    by (simp add: validatePhoneNumber_def strip_plus91)
  have d: "formatPhoneWithCountryCode ''+91 9876543210'' = ''919876543210''"
    by (simp add: formatPhoneWithCountryCode_def strip_plus91)
  have e: "formatPhoneWithCountryCode p =
       (if prefix ''91'' (stripNonDigits p) then stripNonDigits p
        else ''91'' @ stripNonDigits p)"
    by (simp add: formatPhoneWithCountryCode_def Let_def)
  from validatePhoneNumber_iff [of p] a b c d e show ?thesis by blast
qed

subsection \<open>The token manager\<close>

lemma truthy_iff: "truthy x \<longleftrightarrow> (\<exists>s. x = Some s \<and> s \<noteq> [])"
  by (cases x) auto

text \<open>
  C3: when the cached credential has a token (a non-empty string, which is what the
  source's truthiness test accepts) and the clock is strictly before its expiry,
  \<open>getAuthToken\<close> returns that token, leaves the module state as it was, and has no
  effect at all: no network call and no write of the cache file.
\<close>

theorem C3_cached_token_no_io:
  assumes "token (cachedToken st) = Some tok" and "tok \<noteq> []"
    and "now w < expiry (cachedToken st)"
  shows "getAuthToken e w st = (Inr tok, st, [])"
  using assms by (simp add: getAuthToken_def validToken_def)

theorem C3_cached_token_no_io_witness:
  "getAuthToken
     \<lparr> PRAGATI_API_BASE_URL = None, PRAGATI_API_KEY = None, SMS_SENDER_ID = None \<rparr>
     \<lparr> now = 999, nowAfterWait = 999, generateResult = Rejects (Error ''down''),
       generateToken = Inl (Error ''down''), enableResult = Rejects (Error ''down''),
       nowAtCache = 999 \<rparr>
     \<lparr> cachedToken = \<lparr> token = Some ''T0'', expiry = 1000 \<rparr>, tokenRefreshPromise = None \<rparr>
   = (Inr ''T0'',
      \<lparr> cachedToken = \<lparr> token = Some ''T0'', expiry = 1000 \<rparr>, tokenRefreshPromise = None \<rparr>,
      [])"
  using C3_cached_token_no_io [of
      "\<lparr> cachedToken = \<lparr> token = Some ''T0'', expiry = 1000 \<rparr>, tokenRefreshPromise = None \<rparr>"
      "''T0''"
      "\<lparr> now = 999, nowAfterWait = 999, generateResult = Rejects (Error ''down''),
         generateToken = Inl (Error ''down''), enableResult = Rejects (Error ''down''),
         nowAtCache = 999 \<rparr>"
      "\<lparr> PRAGATI_API_BASE_URL = None, PRAGATI_API_KEY = None, SMS_SENDER_ID = None \<rparr>"]
  by simp

lemma enableToken_fails:
  assumes "enableFails w"
  shows "\<exists>err tr. enableToken w st trace tok = (Inl err, st\<lparr>tokenRefreshPromise := None\<rparr>, tr)"
  using assms
  by (auto simp add: enableToken_def enableFails_def refreshFails_def Let_def
      split: fetch_result.splits sum.splits)

lemma refreshToken_fails:
  assumes "generateFails w \<or> enableFails w"
  shows "\<exists>err tr. refreshToken w st = (Inl err, st\<lparr>tokenRefreshPromise := None\<rparr>, tr)"
proof (cases "generateFails w")
  case True
  then show ?thesis
    by (auto simp add: refreshToken_def generateFails_def refreshFails_def Let_def
        split: fetch_result.splits sum.splits option.splits)
next
  case False
  with assms have en: "enableFails w" by simp
  from False obtain response tok where
    g: "generateResult w = Resolves response" "ok response"
       "generateToken w = Inr (Some tok)" "tok \<noteq> []"
    by (auto simp add: generateFails_def truthy_iff split: fetch_result.splits sum.splits)
  from enableToken_fails [OF en] g show ?thesis
    by (simp add: refreshToken_def Let_def)
qed

text \<open>
  C2: take a call that has to refresh (no valid cached credential, no refresh in flight,
  base URL and API key configured) and let the generate call or the enable call fail.
  Then the call raises an error and the module state after it, \<open>cachedToken\<close> included,
  is the state before it; and every call that arrives while this refresh is in flight and
  waits for it raises the same error and also leaves \<open>cachedToken\<close> as it was.
\<close>

theorem C2_failed_refresh_keeps_credential:
  assumes fails: "generateFails w \<or> enableFails w"
    and cfg: "truthy (PRAGATI_API_BASE_URL e)" "truthy (PRAGATI_API_KEY e)"
    and invalid: "validToken (cachedToken st) (now w) = None"
    and idle: "tokenRefreshPromise st = None"
  shows "\<exists>err trace.
           getAuthToken e w st = (Inl err, st, trace)
         \<and> (\<forall>w'. validToken (cachedToken st) (now w') = None \<longrightarrow>
                  getAuthToken e w' (whileInFlight w st) = (Inl err, st, []))"
proof -
  from refreshToken_fails [OF fails] obtain err tr where
    r: "refreshToken w st = (Inl err, st\<lparr>tokenRefreshPromise := None\<rparr>, tr)" by blast
  from idle have same: "st\<lparr>tokenRefreshPromise := None\<rparr> = st" by simp
  have leader: "getAuthToken e w st = (Inl err, st, tr)"
    using r cfg invalid idle same by (simp add: getAuthToken_def startRefresh_def)
  have waiter: "getAuthToken e w' (whileInFlight w st) = (Inl err, st, [])"
    if "validToken (cachedToken st) (now w') = None" for w'
    using that r same by (simp add: getAuthToken_def whileInFlight_def)
  from leader waiter show ?thesis by blast
qed

theorem C2_failed_refresh_keeps_credential_witness:
  "getAuthToken exampleEnv enableRefused expiredState =
     (Inl (Error ''Failed to enable token: 500 down''), expiredState,
      [GenerateToken ''T0'', EnableToken ''T1''])
   \<and> getAuthToken exampleEnv enableRefused (whileInFlight enableRefused expiredState) =
     (Inl (Error ''Failed to enable token: 500 down''), expiredState, [])"
  using C2_failed_refresh_keeps_credential [of enableRefused exampleEnv expiredState]
  by (simp add: exampleEnv_def enableRefused_def expiredState_def generateFails_def
      enableFails_def validToken_def getAuthToken_def startRefresh_def refreshToken_def
      enableToken_def refreshFails_def whileInFlight_def showNat.simps digitChar_def)

text \<open>
  A refresh whose two calls succeed makes exactly these calls, in this order, and caches
  the token for six days; a caller that waited for it returns the cached token with no
  call of its own, as long as it resumes before the new expiry.
\<close>

lemma refreshToken_succeeds:
  assumes "generateResult w = Resolves r1" and "ok r1"
    and "generateToken w = Inr (Some tok)" and "tok \<noteq> []"
    and "enableResult w = Resolves r2" and "ok r2"
  shows "refreshToken w st =
           (Inr tok,
            st\<lparr>cachedToken := \<lparr> token = Some tok, expiry = nowAtCache w + 518400000 \<rparr>,
               tokenRefreshPromise := None\<rparr>,
            [GenerateToken (case token (cachedToken st) of None \<Rightarrow> [] | Some old \<Rightarrow> old),
             EnableToken tok,
             SaveTokenToDisk \<lparr> token = Some tok, expiry = nowAtCache w + 518400000 \<rparr>])"
  using assms by (simp add: refreshToken_def enableToken_def Let_def)

lemma waiter_returns_refreshed_token:
  assumes "refreshToken w st = (Inr tok, st', trace)"
    and "validToken (cachedToken st) (now w') = None"
    and "validToken (cachedToken st') (nowAfterWait w') = Some tok'"
  shows "getAuthToken e w' (whileInFlight w st) =
           (Inr tok', st\<lparr>cachedToken := cachedToken st', tokenRefreshPromise := None\<rparr>, [])"
  using assms by (simp add: getAuthToken_def whileInFlight_def Let_def)


subsection \<open>Concurrent callers\<close>

lemma callerIds_upt: "callerIds n k = [n ..< n + k]"
  by (induction k arbitrary: n) (simp_all add: upt_conv_Cons)

lemma run_Cons: "run e (ev # evs) s = run e evs (step e s ev)"
  by (simp add: run_def)

lemma run_Nil: "run e [] s = s"
  by (simp add: run_def)

lemma run_append: "run e (xs @ ys) s = run e ys (run e xs s)"
  by (simp add: run_def)

lemma calls_in_flight:
  assumes "\<forall>t \<in> set ts. validToken (cached s) t = None"
    and "lock s = Some p" and "promises s = [(p, pd)]"
  shows "run e (map Call ts) s =
           s\<lparr>nextCaller := nextCaller s + length ts,
             promises := [(p, pd\<lparr>awaiting := awaiting pd @
                                   map Waiter (callerIds (nextCaller s) (length ts))\<rparr>)]\<rparr>"
  using assms
proof (induction ts arbitrary: s pd)
  case Nil
  then show ?case by (simp add: run_def)
next
  case (Cons t ts)
  let ?pd1 = "pd\<lparr>awaiting := awaiting pd @ [Waiter (nextCaller s)]\<rparr>"
  let ?s1 = "s\<lparr>nextCaller := nextCaller s + 1, promises := [(p, ?pd1)]\<rparr>"
  have one: "step e s (Call t) = ?s1"
    using Cons.prems by (simp add: enter_def)
  have rest: "run e (map Call ts) ?s1 =
          ?s1\<lparr>nextCaller := nextCaller ?s1 + length ts,
             promises := [(p, ?pd1\<lparr>awaiting := awaiting ?pd1 @
                                   map Waiter (callerIds (nextCaller ?s1) (length ts))\<rparr>)]\<rparr>"
    using Cons.prems by (intro Cons.IH) simp_all
  show ?case
    unfolding list.map run_Cons one rest by simp
qed

lemma resume_waiters_valid:
  assumes "validToken (cached s) t = Some tok"
  shows "resume e t (Inr v) (map Waiter cs) s =
           s\<lparr>returned := returned s @ map (\<lambda>c. (c, Inr tok)) cs\<rparr>"
  using assms
proof (induction cs arbitrary: s)
  case Nil
  then show ?case by simp
next
  case (Cons c cs)
  have "validToken (cached (returns c (Inr tok) s)) t = Some tok"
    using Cons.prems by (simp add: returns_def)
  from Cons.IH [OF this] Cons.prems show ?case by (simp add: returns_def)
qed

lemma callerIds_add: "callerIds n (a + b) = callerIds n a @ callerIds (n + a) b"
  by (induction a arbitrary: n) simp_all

text \<open>
  C1: \<open>N\<close> callers invoke \<open>getAuthToken\<close> while no valid cached credential exists: one
  at clock \<open>t0\<close>, then any number (at the clocks \<open>ts1\<close>) before the gateway answers the
  generate call, then any number (at the clocks \<open>ts2\<close>) before it answers the enable
  call, so \<open>N = 1 + length ts1 + length ts2\<close>. The gateway is configured, the refresh
  produces a token (both calls succeed), and the callers resume before the new
  credential expires. Then the whole run makes exactly one generate call and one enable
  call (and one write of the cache file), every one of the \<open>N\<close> callers returns, and all
  return the same token; afterwards the new credential is cached and no refresh is
  pending.
\<close>

theorem C1_single_flight:
  assumes cfg: "truthy (PRAGATI_API_BASE_URL e)" "truthy (PRAGATI_API_KEY e)"
    and first: "validToken c0 t0 = None"
    and before: "\<forall>t \<in> set ts1. validToken c0 t = None"
    and between: "\<forall>t \<in> set ts2. validToken c0 t = None"
    and gen: "ok r1" "tok \<noteq> []"
    and en: "ok r2"
    and resumed: "tr < tc + sixDays"
    and final: "final = run e ([Call t0] @ map Call ts1
                  @ [GenerateSettles 0 (Resolves r1) (Inr (Some tok)) tg]
                  @ map Call ts2
                  @ [EnableSettles 0 (Resolves r2) tc tr]) (idle c0)"
  shows "log final =
           [GenerateToken (case token c0 of None \<Rightarrow> [] | Some old \<Rightarrow> old),
            EnableToken tok,
            SaveTokenToDisk \<lparr> token = Some tok, expiry = tc + sixDays \<rparr>]
       \<and> returned final = map (\<lambda>c. (c, Inr tok)) [0 ..< 1 + length ts1 + length ts2]
       \<and> cached final = \<lparr> token = Some tok, expiry = tc + sixDays \<rparr>
       \<and> lock final = None \<and> promises final = []"
proof -
  let ?old = "case token c0 of None \<Rightarrow> [] | Some old \<Rightarrow> old"
  let ?pd1 = "\<lparr> phase = AwaitGenerate, awaiting = [Leader 0] \<rparr>"
  let ?s1 = "\<lparr> cached = c0, lock = Some 0, promises = [(0, ?pd1)], nextPromise = 1,
              nextCaller = 1, returned = [], log = [GenerateToken ?old] \<rparr>"
  have s1: "step e (idle c0) (Call t0) = ?s1"
    using cfg first by (simp add: idle_def enter_def beginRefresh_def)
  let ?pd2 = "\<lparr> phase = AwaitGenerate,
               awaiting = Leader 0 # map Waiter (callerIds 1 (length ts1)) \<rparr>"
  let ?s2 = "?s1\<lparr>nextCaller := 1 + length ts1, promises := [(0, ?pd2)]\<rparr>"
  have s2: "run e (map Call ts1) ?s1 = ?s2"
    using calls_in_flight [of ts1 ?s1 0 ?pd1 e] before by simp
  let ?pd3 = "\<lparr> phase = AwaitEnable tok,
               awaiting = Leader 0 # map Waiter (callerIds 1 (length ts1)) \<rparr>"
  let ?s3 = "?s2\<lparr>promises := [(0, ?pd3)], log := [GenerateToken ?old, EnableToken tok]\<rparr>"
  have s3: "step e ?s2 (GenerateSettles 0 (Resolves r1) (Inr (Some tok)) tg) = ?s3"
    using gen by (simp add: generateSettles_def)
  let ?pd4 = "\<lparr> phase = AwaitEnable tok,
               awaiting = Leader 0 # map Waiter (callerIds 1 (length ts1 + length ts2)) \<rparr>"
  let ?s4 = "?s3\<lparr>nextCaller := 1 + length ts1 + length ts2, promises := [(0, ?pd4)]\<rparr>"
  have s4: "run e (map Call ts2) ?s3 = ?s4"
    using calls_in_flight [of ts2 ?s3 0 ?pd3 e] between by (simp add: callerIds_add)
  let ?c = "\<lparr> token = Some tok, expiry = tc + sixDays \<rparr>"
  have valid: "validToken ?c tr = Some tok"
    using gen resumed by (simp add: validToken_def)
  let ?s5 = "\<lparr> cached = ?c, lock = None, promises = [], nextPromise = 1,
              nextCaller = 1 + length ts1 + length ts2,
              returned = map (\<lambda>c. (c, Inr tok)) (callerIds 0 (1 + length ts1 + length ts2)),
              log = [GenerateToken ?old, EnableToken tok, SaveTokenToDisk ?c] \<rparr>"
  have s5: "step e ?s4 (EnableSettles 0 (Resolves r2) tc tr) = ?s5"
    using en valid
    by (simp add: enableSettles_def settle_def Let_def returns_def sixDays_def
        resume_waiters_valid [where tok = tok])
  have "final = ?s5"
    unfolding final run_append run_Cons run_Nil s1 s2 s3 s4 s5 ..
  then show ?thesis by (simp add: callerIds_upt)
qed

theorem C1_single_flight_witness:
  "validToken \<lparr> token = Some ''T0'', expiry = 1000 \<rparr> 5000 = None
   \<and> validToken \<lparr> token = Some ''T0'', expiry = 1000 \<rparr> 5001 = None
   \<and> validToken \<lparr> token = Some ''T0'', expiry = 1000 \<rparr> 5002 = None
   \<and> log (run exampleEnv
            [Call 5000, Call 5001,
             GenerateSettles 0 (Resolves \<lparr> ok = True, status = 200, bodyText = Inr ''{}'' \<rparr>)
               (Inr (Some ''T1'')) 5001,
             Call 5002,
             EnableSettles 0 (Resolves \<lparr> ok = True, status = 200, bodyText = Inr ''{}'' \<rparr>)
               5003 5004]
            (idle \<lparr> token = Some ''T0'', expiry = 1000 \<rparr>)) =
       [GenerateToken ''T0'', EnableToken ''T1'',
        SaveTokenToDisk \<lparr> token = Some ''T1'', expiry = 5003 + sixDays \<rparr>]
   \<and> returned (run exampleEnv
            [Call 5000, Call 5001,
             GenerateSettles 0 (Resolves \<lparr> ok = True, status = 200, bodyText = Inr ''{}'' \<rparr>)
               (Inr (Some ''T1'')) 5001,
             Call 5002,
             EnableSettles 0 (Resolves \<lparr> ok = True, status = 200, bodyText = Inr ''{}'' \<rparr>)
               5003 5004]
            (idle \<lparr> token = Some ''T0'', expiry = 1000 \<rparr>)) =
       [(0, Inr ''T1''), (1, Inr ''T1''), (2, Inr ''T1'')]"
proof -
  let ?c0 = "\<lparr> token = Some ''T0'', expiry = 1000 \<rparr>"
  let ?r = "\<lparr> ok = True, status = 200, bodyText = Inr ''{}'' \<rparr>"
  have v: "validToken ?c0 5000 = None" "validToken ?c0 5001 = None" "validToken ?c0 5002 = None"
    by (simp_all add: validToken_def)
  have cfg: "truthy (PRAGATI_API_BASE_URL exampleEnv)" "truthy (PRAGATI_API_KEY exampleEnv)"
    by (simp_all add: exampleEnv_def)
  have b1: "\<forall>t \<in> set [5001]. validToken ?c0 t = None"
    and b2: "\<forall>t \<in> set [5002]. validToken ?c0 t = None"
    using v by simp_all
  have ok: "ok ?r" and tok: "''T1'' \<noteq> []" and tr: "(5004::int) < 5003 + sixDays"
    by (simp_all add: sixDays_def)
  have evs: "run exampleEnv
            [Call 5000, Call 5001, GenerateSettles 0 (Resolves ?r) (Inr (Some ''T1'')) 5001,
             Call 5002, EnableSettles 0 (Resolves ?r) 5003 5004] (idle ?c0) =
          run exampleEnv ([Call 5000] @ map Call [5001]
             @ [GenerateSettles 0 (Resolves ?r) (Inr (Some ''T1'')) 5001]
             @ map Call [5002] @ [EnableSettles 0 (Resolves ?r) 5003 5004]) (idle ?c0)"
    by simp
  from C1_single_flight [OF cfg v(1) b1 b2 ok tok ok tr refl] v show ?thesis
    unfolding evs by (simp add: upt_rec)
qed

text \<open>The one-call function and the event loop, stage by stage.\<close>

lemma refreshToken_outcome:
  "refreshToken w st =
     (case generateOutcome (generateResult w) (generateToken w) of
        Inl err \<Rightarrow>
          refreshFails err st
            [GenerateToken (case token (cachedToken st) of None \<Rightarrow> [] | Some old \<Rightarrow> old)]
      | Inr tok \<Rightarrow>
          enableToken w st
            [GenerateToken (case token (cachedToken st) of None \<Rightarrow> [] | Some old \<Rightarrow> old)] tok)"
  by (simp add: refreshToken_def generateOutcome_def Let_def
      split: fetch_result.splits sum.splits option.splits)

lemma enableToken_outcome:
  "enableToken w st trace tok =
     (case enableOutcome (enableResult w) of
        Some err \<Rightarrow> refreshFails err st (trace @ [EnableToken tok])
      | None \<Rightarrow>
          (Inr tok,
           st\<lparr>cachedToken := \<lparr> token = Some tok, expiry = nowAtCache w + sixDays \<rparr>,
              tokenRefreshPromise := None\<rparr>,
           trace @ [EnableToken tok,
                    SaveTokenToDisk \<lparr> token = Some tok, expiry = nowAtCache w + sixDays \<rparr>]))"
  by (simp add: enableToken_def enableOutcome_def Let_def sixDays_def
      split: fetch_result.splits sum.splits)

lemma generateSettles_outcome:
  "generateSettles e p pd fetched tokenField t s =
     (case generateOutcome fetched tokenField of
        Inl err \<Rightarrow> settle e t p pd (Inl err) s
      | Inr tok \<Rightarrow>
          s\<lparr>promises := AList.update p (pd\<lparr>phase := AwaitEnable tok\<rparr>) (promises s),
            log := log s @ [EnableToken tok]\<rparr>)"
  by (simp add: generateSettles_def generateOutcome_def
      split: fetch_result.splits sum.splits option.splits)

lemma enableSettles_outcome:
  "enableSettles e p pd tok fetched tc t s =
     (case enableOutcome fetched of
        Some err \<Rightarrow> settle e t p pd (Inl err) s
      | None \<Rightarrow>
          settle e t p pd (Inr tok)
            (s\<lparr>cached := \<lparr> token = Some tok, expiry = tc + sixDays \<rparr>,
               log := log s @ [SaveTokenToDisk \<lparr> token = Some tok, expiry = tc + sixDays \<rparr>]\<rparr>))"
  by (simp add: enableSettles_def enableOutcome_def Let_def sixDays_def
      split: fetch_result.splits sum.splits)

text \<open>A single caller on the event loop does what the one-call function says.\<close>

lemma single_caller_agrees:
  assumes "getAuthToken e w \<lparr> cachedToken = c, tokenRefreshPromise = None \<rparr> = (outcome, st', trace)"
    and "final = run e [Call (now w),
                        GenerateSettles 0 (generateResult w) (generateToken w) tg,
                        EnableSettles 0 (enableResult w) (nowAtCache w) tr] (idle c)"
  shows "returned final = [(0, outcome)] \<and> cached final = cachedToken st' \<and> log final = trace
       \<and> lock final = None \<and> tokenRefreshPromise st' = None"
proof (cases "validToken c (now w)")
  case (Some tok)
  with assms show ?thesis
    by (auto simp add: getAuthToken_def run_def idle_def enter_def returns_def)
next
  case None
  show ?thesis
  proof (cases "\<not> truthy (PRAGATI_API_BASE_URL e) \<or> \<not> truthy (PRAGATI_API_KEY e)")
    case True
    with None assms show ?thesis
      by (auto simp add: getAuthToken_def startRefresh_def run_def idle_def enter_def
          beginRefresh_def returns_def)
  next
    case False
    let ?old = "case token c of None \<Rightarrow> [] | Some old \<Rightarrow> old"
    let ?pd = "\<lparr> phase = AwaitGenerate, awaiting = [Leader 0] \<rparr>"
    let ?s1 = "\<lparr> cached = c, lock = Some 0, promises = [(0, ?pd)], nextPromise = 1,
                nextCaller = 1, returned = [], log = [GenerateToken ?old] \<rparr>"
    have s1: "step e (idle c) (Call (now w)) = ?s1"
      using None False by (simp add: idle_def enter_def beginRefresh_def)
    have seq: "getAuthToken e w \<lparr> cachedToken = c, tokenRefreshPromise = None \<rparr> =
                 refreshToken w \<lparr> cachedToken = c, tokenRefreshPromise = None \<rparr>"
      using None False by (simp add: getAuthToken_def startRefresh_def)
    let ?st = "\<lparr> cachedToken = c, tokenRefreshPromise = None \<rparr>"
    show ?thesis
    proof (cases "generateOutcome (generateResult w) (generateToken w)")
      case (Inl err)
      let ?s2 = "\<lparr> cached = c, lock = None, promises = [], nextPromise = 1,
                  nextCaller = 1, returned = [(0, Inl err)], log = [GenerateToken ?old] \<rparr>"
      have s2: "step e ?s1 (GenerateSettles 0 (generateResult w) (generateToken w) tg) = ?s2"
        by (simp add: generateSettles_outcome Inl settle_def returns_def)
      have s3: "step e ?s2 (EnableSettles 0 (enableResult w) (nowAtCache w) tr) = ?s2"
        by simp
      have "refreshToken w ?st = (Inl err, ?st, [GenerateToken ?old])"
        by (simp add: refreshToken_outcome Inl refreshFails_def)
      with assms(1) have "outcome = Inl err" "st' = ?st" "trace = [GenerateToken ?old]"
        unfolding seq by simp_all
      moreover have "final = ?s2"
        unfolding assms(2) run_Cons run_Nil s1 s2 s3 ..
      ultimately show ?thesis by simp
    next
      case (Inr tok)
      let ?pd2 = "\<lparr> phase = AwaitEnable tok, awaiting = [Leader 0] \<rparr>"
      let ?s2 = "\<lparr> cached = c, lock = Some 0, promises = [(0, ?pd2)], nextPromise = 1,
                  nextCaller = 1, returned = [],
                  log = [GenerateToken ?old, EnableToken tok] \<rparr>"
      have s2: "step e ?s1 (GenerateSettles 0 (generateResult w) (generateToken w) tg) = ?s2"
        by (simp add: generateSettles_outcome Inr)
      show ?thesis
      proof (cases "enableOutcome (enableResult w)")
        case None
        let ?c = "\<lparr> token = Some tok, expiry = nowAtCache w + sixDays \<rparr>"
        let ?s3 = "\<lparr> cached = ?c, lock = None, promises = [], nextPromise = 1,
                    nextCaller = 1, returned = [(0, Inr tok)],
                    log = [GenerateToken ?old, EnableToken tok, SaveTokenToDisk ?c] \<rparr>"
        have s3: "step e ?s2 (EnableSettles 0 (enableResult w) (nowAtCache w) tr) = ?s3"
          by (simp add: enableSettles_outcome None settle_def returns_def)
        have "refreshToken w ?st =
                (Inr tok, \<lparr> cachedToken = ?c, tokenRefreshPromise = None \<rparr>,
                 [GenerateToken ?old, EnableToken tok, SaveTokenToDisk ?c])"
          by (simp add: refreshToken_outcome Inr enableToken_outcome None)
        with assms(1) have "outcome = Inr tok"
          "st' = \<lparr> cachedToken = ?c, tokenRefreshPromise = None \<rparr>"
          "trace = [GenerateToken ?old, EnableToken tok, SaveTokenToDisk ?c]"
          unfolding seq by simp_all
        moreover have "final = ?s3"
          unfolding assms(2) run_Cons run_Nil s1 s2 s3 ..
        ultimately show ?thesis by simp
      next
        case (Some err)
        let ?s3 = "\<lparr> cached = c, lock = None, promises = [], nextPromise = 1,
                    nextCaller = 1, returned = [(0, Inl err)],
                    log = [GenerateToken ?old, EnableToken tok] \<rparr>"
        have s3: "step e ?s2 (EnableSettles 0 (enableResult w) (nowAtCache w) tr) = ?s3"
          by (simp add: enableSettles_outcome Some settle_def returns_def)
        have "refreshToken w ?st = (Inl err, ?st, [GenerateToken ?old, EnableToken tok])"
          by (simp add: refreshToken_outcome Inr enableToken_outcome Some refreshFails_def)
        with assms(1) have "outcome = Inl err" "st' = ?st"
          "trace = [GenerateToken ?old, EnableToken tok]"
          unfolding seq by simp_all
        moreover have "final = ?s3"
          unfolding assms(2) run_Cons run_Nil s1 s2 s3 ..
        ultimately show ?thesis by simp
      qed
    qed
  qed
qed

text \<open>Failure of a call, said with the predicates of the one-call statements.\<close>

lemma generateFails_iff:
  "generateFails w \<longleftrightarrow> (\<exists>err. generateOutcome (generateResult w) (generateToken w) = Inl err)"
  by (auto simp add: generateFails_def generateOutcome_def truthy_iff
      split: fetch_result.splits sum.splits option.splits)

lemma enableFails_iff:
  "enableFails w \<longleftrightarrow> (\<exists>err. enableOutcome (enableResult w) = Some err)"
  by (auto simp add: enableFails_def enableOutcome_def split: fetch_result.splits sum.splits)

text \<open>
  A failed refresh on the event loop: every caller that arrived during the attempt gets
  the same error, the cached credential stays, and no second attempt was started.
\<close>

lemma resume_rejected:
  "resume e t (Inl err) ws s = s\<lparr>returned := returned s @ map (\<lambda>x. (callerOf x, Inl err)) ws\<rparr>"
proof (induction ws arbitrary: s)
  case Nil
  then show ?case by simp
next
  case (Cons x ws)
  then show ?case by (cases x) (simp_all add: returns_def)
qed

lemma failed_generate_reaches_every_caller:
  assumes cfg: "truthy (PRAGATI_API_BASE_URL e)" "truthy (PRAGATI_API_KEY e)"
    and first: "validToken c0 t0 = None"
    and before: "\<forall>t \<in> set ts1. validToken c0 t = None"
    and fails: "generateOutcome fetched tokenField = Inl err"
    and final: "final = run e ([Call t0] @ map Call ts1
                  @ [GenerateSettles 0 fetched tokenField tr]) (idle c0)"
  shows "returned final = map (\<lambda>c. (c, Inl err)) [0 ..< 1 + length ts1]
       \<and> cached final = c0 \<and> lock final = None \<and> promises final = []
       \<and> log final = [GenerateToken (case token c0 of None \<Rightarrow> [] | Some old \<Rightarrow> old)]"
proof -
  let ?old = "case token c0 of None \<Rightarrow> [] | Some old \<Rightarrow> old"
  let ?pd1 = "\<lparr> phase = AwaitGenerate, awaiting = [Leader 0] \<rparr>"
  let ?s1 = "\<lparr> cached = c0, lock = Some 0, promises = [(0, ?pd1)], nextPromise = 1,
              nextCaller = 1, returned = [], log = [GenerateToken ?old] \<rparr>"
  have s1: "step e (idle c0) (Call t0) = ?s1"
    using cfg first by (simp add: idle_def enter_def beginRefresh_def)
  let ?pd2 = "\<lparr> phase = AwaitGenerate,
               awaiting = Leader 0 # map Waiter (callerIds 1 (length ts1)) \<rparr>"
  let ?s2 = "?s1\<lparr>nextCaller := 1 + length ts1, promises := [(0, ?pd2)]\<rparr>"
  have s2: "run e (map Call ts1) ?s1 = ?s2"
    using calls_in_flight [of ts1 ?s1 0 ?pd1 e] before by simp
  let ?s3 = "\<lparr> cached = c0, lock = None, promises = [], nextPromise = 1,
              nextCaller = 1 + length ts1,
              returned = map (\<lambda>c. (c, Inl err)) (callerIds 0 (1 + length ts1)),
              log = [GenerateToken ?old] \<rparr>"
  have s3: "step e ?s2 (GenerateSettles 0 fetched tokenField tr) = ?s3"
    by (simp add: generateSettles_outcome fails settle_def resume_rejected returns_def comp_def)
  have "final = ?s3"
    unfolding final run_append run_Cons run_Nil s1 s2 s3 ..
  then show ?thesis by (simp add: callerIds_upt)
qed

lemma failed_enable_reaches_every_caller:
  assumes cfg: "truthy (PRAGATI_API_BASE_URL e)" "truthy (PRAGATI_API_KEY e)"
    and first: "validToken c0 t0 = None"
    and before: "\<forall>t \<in> set ts1. validToken c0 t = None"
    and between: "\<forall>t \<in> set ts2. validToken c0 t = None"
    and gen: "generateOutcome fetched tokenField = Inr tok"
    and fails: "enableOutcome fetched2 = Some err"
    and final: "final = run e ([Call t0] @ map Call ts1
                  @ [GenerateSettles 0 fetched tokenField tg]
                  @ map Call ts2
                  @ [EnableSettles 0 fetched2 tc tr]) (idle c0)"
  shows "returned final = map (\<lambda>c. (c, Inl err)) [0 ..< 1 + length ts1 + length ts2]
       \<and> cached final = c0 \<and> lock final = None \<and> promises final = []
       \<and> log final = [GenerateToken (case token c0 of None \<Rightarrow> [] | Some old \<Rightarrow> old),
                       EnableToken tok]"
proof -
  let ?old = "case token c0 of None \<Rightarrow> [] | Some old \<Rightarrow> old"
  let ?pd1 = "\<lparr> phase = AwaitGenerate, awaiting = [Leader 0] \<rparr>"
  let ?s1 = "\<lparr> cached = c0, lock = Some 0, promises = [(0, ?pd1)], nextPromise = 1,
              nextCaller = 1, returned = [], log = [GenerateToken ?old] \<rparr>"
  have s1: "step e (idle c0) (Call t0) = ?s1"
    using cfg first by (simp add: idle_def enter_def beginRefresh_def)
  let ?pd2 = "\<lparr> phase = AwaitGenerate,
               awaiting = Leader 0 # map Waiter (callerIds 1 (length ts1)) \<rparr>"
  let ?s2 = "?s1\<lparr>nextCaller := 1 + length ts1, promises := [(0, ?pd2)]\<rparr>"
  have s2: "run e (map Call ts1) ?s1 = ?s2"
    using calls_in_flight [of ts1 ?s1 0 ?pd1 e] before by simp
  let ?pd3 = "\<lparr> phase = AwaitEnable tok,
               awaiting = Leader 0 # map Waiter (callerIds 1 (length ts1)) \<rparr>"
  let ?s3 = "?s2\<lparr>promises := [(0, ?pd3)], log := [GenerateToken ?old, EnableToken tok]\<rparr>"
  have s3: "step e ?s2 (GenerateSettles 0 fetched tokenField tg) = ?s3"
    by (simp add: generateSettles_outcome gen)
  let ?pd4 = "\<lparr> phase = AwaitEnable tok,
               awaiting = Leader 0 # map Waiter (callerIds 1 (length ts1 + length ts2)) \<rparr>"
  let ?s4 = "?s3\<lparr>nextCaller := 1 + length ts1 + length ts2, promises := [(0, ?pd4)]\<rparr>"
  have s4: "run e (map Call ts2) ?s3 = ?s4"
    using calls_in_flight [of ts2 ?s3 0 ?pd3 e] between by (simp add: callerIds_add)
  let ?s5 = "\<lparr> cached = c0, lock = None, promises = [], nextPromise = 1,
              nextCaller = 1 + length ts1 + length ts2,
              returned = map (\<lambda>c. (c, Inl err)) (callerIds 0 (1 + length ts1 + length ts2)),
              log = [GenerateToken ?old, EnableToken tok] \<rparr>"
  have s5: "step e ?s4 (EnableSettles 0 fetched2 tc tr) = ?s5"
    by (simp add: enableSettles_outcome fails settle_def resume_rejected returns_def comp_def)
  have "final = ?s5"
    unfolding final run_append run_Cons run_Nil s1 s2 s3 s4 s5 ..
  then show ?thesis by (simp add: callerIds_upt)
qed

subsection \<open>Response parsing\<close>

lemma splitAcc_nonempty: "splitAcc d acc s \<noteq> []"
  by (induction s arbitrary: acc) auto

lemma split_nonempty: "split s d \<noteq> []"
  by (simp add: split_def splitAcc_nonempty)

lemma parsePragatiResponse_nonempty: "parsePragatiResponse t n \<noteq> []"
  by (simp add: parsePragatiResponse_def Let_def split_nonempty)

text \<open>One result per error code, paired by position, as the parser's contract says.\<close>

lemma parsePragatiResponse_length:
  "length (parsePragatiResponse t n) =
     length (split (case matchField ''errorcode='' t of Some s \<Rightarrow> s | None \<Rightarrow> ''0'') CHR '','')"
  by (simp add: parsePragatiResponse_def Let_def)

lemma parsePragatiResponse_nth:
  assumes "codes = split (case matchField ''errorcode='' t of Some s \<Rightarrow> s | None \<Rightarrow> ''0'') CHR '',''"
    and "seqnos = (case matchField ''seqno='' t of Some s \<Rightarrow> split s CHR '','' | None \<Rightarrow> [])"
    and "i < length codes"
  shows "parsePragatiResponse t n ! i =
     \<lparr> success = (codes ! i = ''0''),
       guid = (if codes ! i = ''0'' then matchField ''guid='' t else None),
       errorCode = codes ! i,
       errorMessage = (if codes ! i \<noteq> ''0'' then errorMessageFor (codes ! i) else Null),
       seqno = seqnoAt seqnos i \<rparr>"
  using assms by (simp add: parsePragatiResponse_def Let_def)

lemma errorMessageFor_table:
  "(code, m) \<in> set errorMessages \<Longrightarrow> errorMessageFor code = Text m"
  by (auto simp add: errorMessageFor_def getProp_def errorMessages_def)

lemma errorMessageFor_unknown:
  assumes "code \<notin> fst ` set errorMessages" and "code \<notin> set objectPrototypeKeys"
  shows "errorMessageFor code = Text (''Unknown error code: '' @ code)"
proof -
  from assms(1) have "map_of errorMessages code = None" by (simp add: map_of_eq_None_iff)
  with assms(2) show ?thesis by (simp add: errorMessageFor_def getProp_def)
qed

text \<open>The specification's example.\<close>

lemma parsePragatiResponse_example:
  "parsePragatiResponse ''guid=G1&errorcode=0,7,0&seqno=911,912,913'' 3 =
     [\<lparr> success = True, guid = Some ''G1'', errorCode = ''0'', errorMessage = Null,
        seqno = Some ''911'' \<rparr>,
      \<lparr> success = False, guid = None, errorCode = ''7'',
        errorMessage = Text ''Credit Expired - Account balance is zero'',
        seqno = Some ''912'' \<rparr>,
      \<lparr> success = True, guid = Some ''G1'', errorCode = ''0'', errorMessage = Null,
        seqno = Some ''913'' \<rparr>]"
  by (simp add: parsePragatiResponse_def Let_def split_def notAmp_def seqnoAt_def
      errorMessageFor_def getProp_def errorMessages_def upt_rec)

text \<open>
  C5 (the code at the failing input): the claim holds for every code that is in the table
  or is not the name of a member of \<open>Object.prototype\<close> (the lemmas above). For
  the response \<open>guid=G1&errorcode=constructor&seqno=911\<close> the code \<open>constructor\<close> is
  not in the taxonomy table, yet the lookup \<open>errorMessages[code]\<close> finds the inherited
  \<open>Object.prototype.constructor\<close>, which is truthy, so \<open>errorMessage\<close> is that function
  and not the synthesized text \<open>Unknown error code: constructor\<close>.
\<close>

theorem C5_inherited_member_instead_of_unknown_code:
  "parsePragatiResponse ''guid=G1&errorcode=constructor&seqno=911'' 1 =
     [\<lparr> success = False, guid = None, errorCode = ''constructor'',
        errorMessage = PrototypeMember ''constructor'', seqno = Some ''911'' \<rparr>]
   \<and> ''constructor'' \<notin> fst ` set errorMessages
   \<and> errorMessageFor ''constructor'' \<noteq> Text (''Unknown error code: '' @ ''constructor'')"
  by (simp add: parsePragatiResponse_def Let_def split_def notAmp_def seqnoAt_def
      errorMessageFor_def getProp_def errorMessages_def objectPrototypeKeys_def upt_rec)

subsection \<open>The send loop\<close>

lemma formatPhones_present:
  "list_all (\<lambda>r. phone r \<noteq> None) g \<Longrightarrow> \<exists>ps. formatPhones g = Inr ps"
  by (induction g) auto

lemma sendBatches_acc:
  "sendBatches gw s t tok i bs R T =
     (case sendBatches gw s t tok i bs [] [] of (err, R', T') \<Rightarrow> (err, R @ R', T @ T'))"
proof (induction bs arbitrary: i R T)
  case Nil
  then show ?case by simp
next
  case (Cons b bs)
  show ?case
  proof (cases "formatPhones (members b)")
    case (Inl e)
    then show ?thesis by simp
  next
    case (Inr ps)
    then show ?thesis
      using Cons [of "i + 1" "R @ sendBatch b (gw i)"]
        Cons [of "i + 1" "sendBatch b (gw i)"]
      by (simp split: prod.splits)
  qed
qed

lemma sendBatches_present:
  "phonesPresent bs \<Longrightarrow> \<exists>R' T'. sendBatches gw s t tok i bs R T = (None, R', T')"
proof (induction bs arbitrary: i R T)
  case Nil
  then show ?case by simp
next
  case (Cons b bs)
  from Cons.prems have p: "list_all (\<lambda>r. phone r \<noteq> None) (members b)" and ps: "phonesPresent bs"
    by (simp_all add: phonesPresent_def)
  from formatPhones_present [OF p] obtain phones where f: "formatPhones (members b) = Inr phones"
    by blast
  show ?case using Cons.IH [OF ps] f by simp
qed

lemma sendBatches_append:
  "sendBatches gw s t tok i (xs @ ys) R T =
     (case sendBatches gw s t tok i xs R T of
        (Some e, R', T') \<Rightarrow> (Some e, R', T')
      | (None, R', T') \<Rightarrow> sendBatches gw s t tok (i + length xs) ys R' T')"
proof (induction xs arbitrary: i R T)
  case Nil
  then show ?case by simp
next
  case (Cons b bs)
  show ?case
  proof (cases "formatPhones (members b)")
    case (Inl e)
    then show ?thesis by simp
  next
    case (Inr ps)
    then show ?thesis using Cons [of "Suc i"] by (simp split: prod.splits option.splits)
  qed
qed

lemma sendBatches_cong:
  "(\<And>k. i \<le> k \<Longrightarrow> k < i + length bs \<Longrightarrow> gw' k = gw k) \<Longrightarrow>
   sendBatches gw' s t tok i bs R T = sendBatches gw s t tok i bs R T"
proof (induction bs arbitrary: i R T)
  case Nil
  then show ?case by simp
next
  case (Cons b bs)
  have here: "gw' i = gw i" using Cons.prems [of i] by simp
  have rest: "sendBatches gw' s t tok (Suc i) bs R' T' = sendBatches gw s t tok (Suc i) bs R' T'"
    for R' T'
    using Cons.IH [of "Suc i"] Cons.prems by simp
  show ?case by (simp add: here rest split: sum.splits)
qed

lemma sendBatch_failure:
  "batchFailure fetched = Some err \<Longrightarrow> sendBatch b fetched = map (failedResult err) (members b)"
  by (auto simp add: batchFailure_def sendBatch_def Let_def
      split: fetch_result.splits sum.splits if_splits)

lemma sendBatches_split:
  assumes present: "phonesPresent (pre @ b # post)"
    and R1: "sendBatches gw s t tok 0 pre [] [] = (None, R1, T1)"
    and R2: "sendBatches gw s t tok (length pre + 1) post [] [] = (None, R2, T2)"
  shows "\<exists>T. sendBatches gw s t tok 0 (pre @ b # post) [] [] =
           (None, R1 @ sendBatch b (gw (length pre)) @ R2, T)"
proof -
  from present have "list_all (\<lambda>r. phone r \<noteq> None) (members b)"
    by (simp add: phonesPresent_def)
  from formatPhones_present [OF this] obtain ps where f: "formatPhones (members b) = Inr ps"
    by blast
  show ?thesis
    using R1 R2 f
      sendBatches_acc [of gw s t tok "Suc (length pre)" post "R1 @ sendBatch b (gw (length pre))"]
    by (simp add: sendBatches_append)
qed

text \<open>
  C4: in a send over the batches \<open>pre @ b # post\<close>, let the call for \<open>b\<close> (batch number
  \<open>length pre\<close>) fail: the \<open>fetch\<close> or the read of the body throws, or the HTTP status
  is not a success. Then the loop ends without an exception; the aggregated results are
  the results \<open>R1\<close> of the batches before, then one failed entry per member of \<open>b\<close>
  carrying the error text (the exception's message, or \<open>HTTP status: body\<close>), then the
  results \<open>R2\<close> of the batches after; \<open>R1\<close> and \<open>R2\<close> are what those batches produce
  when sent without \<open>b\<close>, and they stay the same whatever the gateway does on \<open>b\<close>.
\<close>

theorem C4_failed_batch_is_isolated:
  assumes present: "phonesPresent (pre @ b # post)"
    and fails: "batchFailure (gateway (length pre)) = Some err"
  shows "\<exists>R1 T1 R2 T2.
           sendBatches gateway s t tok 0 pre [] [] = (None, R1, T1)
         \<and> sendBatches gateway s t tok (length pre + 1) post [] [] = (None, R2, T2)
         \<and> fst (sendBatches gateway s t tok 0 (pre @ b # post) [] []) = None
         \<and> fst (snd (sendBatches gateway s t tok 0 (pre @ b # post) [] [])) =
             R1 @ map (failedResult err) (members b) @ R2
         \<and> (\<forall>gateway'. (\<forall>k. k \<noteq> length pre \<longrightarrow> gateway' k = gateway k) \<longrightarrow>
               fst (snd (sendBatches gateway' s t tok 0 (pre @ b # post) [] [])) =
                 R1 @ sendBatch b (gateway' (length pre)) @ R2)"
proof -
  from present have p1: "phonesPresent pre" and p2: "phonesPresent post"
    by (simp_all add: phonesPresent_def)
  from sendBatches_present [OF p1] obtain R1 T1 where
    r1: "sendBatches gateway s t tok 0 pre [] [] = (None, R1, T1)" by blast
  from sendBatches_present [OF p2] obtain R2 T2 where
    r2: "sendBatches gateway s t tok (length pre + 1) post [] [] = (None, R2, T2)" by blast
  from sendBatches_split [OF present r1 r2] obtain T where
    whole: "sendBatches gateway s t tok 0 (pre @ b # post) [] [] =
              (None, R1 @ sendBatch b (gateway (length pre)) @ R2, T)" by blast
  have other: "fst (snd (sendBatches gateway' s t tok 0 (pre @ b # post) [] [])) =
                 R1 @ sendBatch b (gateway' (length pre)) @ R2"
    if same: "\<forall>k. k \<noteq> length pre \<longrightarrow> gateway' k = gateway k" for gateway'
  proof -
    have "sendBatches gateway' s t tok 0 pre [] [] = sendBatches gateway s t tok 0 pre [] []"
      using same by (intro sendBatches_cong) simp
    with r1 have r1': "sendBatches gateway' s t tok 0 pre [] [] = (None, R1, T1)" by simp
    have "sendBatches gateway' s t tok (length pre + 1) post [] [] =
          sendBatches gateway s t tok (length pre + 1) post [] []"
      using same by (intro sendBatches_cong) simp
    with r2 have r2': "sendBatches gateway' s t tok (length pre + 1) post [] [] = (None, R2, T2)"
      by simp
    from sendBatches_split [OF present r1' r2'] show ?thesis by auto
  qed
  from r1 r2 whole other sendBatch_failure [OF fails, of b] show ?thesis by auto
qed

lemma sendBatches_example_before:
  "sendBatches secondCallDrops ''JAINUN'' ''1007'' ''T0'' 0
     [\<lparr> messageText = ''hello'', members = [rHello] \<rparr>] [] [] =
   (None,
    [\<lparr> r_phone = Some ''9876543210'', r_success = True, r_guid = Some ''G1'',
       r_seqno = Some ''911'', r_error = None, r_errorCode = None \<rparr>],
    [SendSMS ''919876543210'' ''JAINUN'' ''hello'' ''1007'' ''T0'', Delay 500])"
  by (simp add: secondCallDrops_def accepted_def rHello_def sendBatch_def matchResults_def
      parsedToResult_def parsePragatiResponse_def Let_def split_def notAmp_def seqnoAt_def
      formatPhoneWithCountryCode_def stripNonDigits_def isDigit_def upt_rec)

lemma sendBatches_example_after:
  "sendBatches secondCallDrops ''JAINUN'' ''1007'' ''T0'' 2
     [\<lparr> messageText = ''hello'', members = [rOther] \<rparr>] [] [] =
   (None,
    [\<lparr> r_phone = Some ''9123456789'', r_success = True, r_guid = Some ''G1'',
       r_seqno = Some ''911'', r_error = None, r_errorCode = None \<rparr>],
    [SendSMS ''9123456789'' ''JAINUN'' ''hello'' ''1007'' ''T0'', Delay 500])"
  by (simp add: secondCallDrops_def accepted_def rOther_def sendBatch_def matchResults_def
      parsedToResult_def parsePragatiResponse_def Let_def split_def notAmp_def seqnoAt_def
      formatPhoneWithCountryCode_def stripNonDigits_def isDigit_def upt_rec)

theorem C4_failed_batch_is_isolated_witness:
  "phonesPresent [\<lparr> messageText = ''hello'', members = [rHello] \<rparr>,
                  \<lparr> messageText = ''7'', members = [rSeven] \<rparr>,
                  \<lparr> messageText = ''hello'', members = [rOther] \<rparr>]
   \<and> batchFailure (secondCallDrops 1) = Some ''socket hang up''
   \<and> fst (sendBatches secondCallDrops ''JAINUN'' ''1007'' ''T0'' 0
             [\<lparr> messageText = ''hello'', members = [rHello] \<rparr>,
              \<lparr> messageText = ''7'', members = [rSeven] \<rparr>,
              \<lparr> messageText = ''hello'', members = [rOther] \<rparr>] [] []) = None
   \<and> fst (snd (sendBatches secondCallDrops ''JAINUN'' ''1007'' ''T0'' 0
             [\<lparr> messageText = ''hello'', members = [rHello] \<rparr>,
              \<lparr> messageText = ''7'', members = [rSeven] \<rparr>,
              \<lparr> messageText = ''hello'', members = [rOther] \<rparr>] [] [])) =
       [\<lparr> r_phone = Some ''9876543210'', r_success = True, r_guid = Some ''G1'',
          r_seqno = Some ''911'', r_error = None, r_errorCode = None \<rparr>,
        \<lparr> r_phone = Some ''9876543211'', r_success = False, r_guid = None,
          r_seqno = None, r_error = Some (Text ''socket hang up''), r_errorCode = None \<rparr>,
        \<lparr> r_phone = Some ''9123456789'', r_success = True, r_guid = Some ''G1'',
          r_seqno = Some ''911'', r_error = None, r_errorCode = None \<rparr>]"
proof -
  have p: "phonesPresent ([\<lparr> messageText = ''hello'', members = [rHello] \<rparr>] @
                  \<lparr> messageText = ''7'', members = [rSeven] \<rparr> #
                  [\<lparr> messageText = ''hello'', members = [rOther] \<rparr>])"
    by (simp add: phonesPresent_def rHello_def rSeven_def rOther_def)
  have f: "batchFailure (secondCallDrops (length [\<lparr> messageText = ''hello'', members = [rHello] \<rparr>]))
             = Some ''socket hang up''"
    by (simp add: batchFailure_def secondCallDrops_def)
  from C4_failed_batch_is_isolated
         [where pre = "[\<lparr> messageText = ''hello'', members = [rHello] \<rparr>]"
            and b = "\<lparr> messageText = ''7'', members = [rSeven] \<rparr>"
            and post = "[\<lparr> messageText = ''hello'', members = [rOther] \<rparr>]"
            and gateway = secondCallDrops and err = "''socket hang up''"
            and s = "''JAINUN''" and t = "''1007''" and tok = "''T0''", OF p f]
  obtain R1 T1 R2 T2 where
    r1: "sendBatches secondCallDrops ''JAINUN'' ''1007'' ''T0'' 0
           [\<lparr> messageText = ''hello'', members = [rHello] \<rparr>] [] [] = (None, R1, T1)"
    and r2: "sendBatches secondCallDrops ''JAINUN'' ''1007'' ''T0''
           (length [\<lparr> messageText = ''hello'', members = [rHello] \<rparr>] + 1)
           [\<lparr> messageText = ''hello'', members = [rOther] \<rparr>] [] [] = (None, R2, T2)"
    and none: "fst (sendBatches secondCallDrops ''JAINUN'' ''1007'' ''T0'' 0
           ([\<lparr> messageText = ''hello'', members = [rHello] \<rparr>] @
                  \<lparr> messageText = ''7'', members = [rSeven] \<rparr> #
                  [\<lparr> messageText = ''hello'', members = [rOther] \<rparr>]) [] []) = None"
    and whole: "fst (snd (sendBatches secondCallDrops ''JAINUN'' ''1007'' ''T0'' 0
           ([\<lparr> messageText = ''hello'', members = [rHello] \<rparr>] @
                  \<lparr> messageText = ''7'', members = [rSeven] \<rparr> #
                  [\<lparr> messageText = ''hello'', members = [rOther] \<rparr>]) [] [])) =
          R1 @ map (failedResult ''socket hang up'')
                   (members \<lparr> messageText = ''7'', members = [rSeven] \<rparr>) @ R2"
    by blast
  have two: "length [\<lparr> messageText = ''hello'', members = [rHello] \<rparr>] + 1 = 2" by simp
  from r1 have R1: "R1 = [\<lparr> r_phone = Some ''9876543210'', r_success = True, r_guid = Some ''G1'',
          r_seqno = Some ''911'', r_error = None, r_errorCode = None \<rparr>]"
    unfolding sendBatches_example_before by simp
  from r2 have R2: "R2 = [\<lparr> r_phone = Some ''9123456789'', r_success = True, r_guid = Some ''G1'',
          r_seqno = Some ''911'', r_error = None, r_errorCode = None \<rparr>]"
    unfolding two sendBatches_example_after by simp
  have mid: "map (failedResult ''socket hang up'')
                   (members \<lparr> messageText = ''7'', members = [rSeven] \<rparr>) =
        [\<lparr> r_phone = Some ''9876543211'', r_success = False, r_guid = None,
          r_seqno = None, r_error = Some (Text ''socket hang up''), r_errorCode = None \<rparr>]"
    by (simp add: failedResult_def rSeven_def)
  from p f none whole show ?thesis unfolding R1 R2 mid by simp
qed

lemma sendBatch_ok:
  assumes "bodyText response = Inr responseText" and "ok response"
  shows "sendBatch b (Resolves response) =
           map (\<lambda>(r, index).
                  parsedToResult r
                    (if index < length (parsePragatiResponse responseText (length (members b)))
                     then parsePragatiResponse responseText (length (members b)) ! index
                     else parsePragatiResponse responseText (length (members b)) ! 0))
               (zip (members b) [0 ..< length (members b)])"
  using assms
  by (simp add: sendBatch_def matchResults_def Let_def parsePragatiResponse_nonempty)

text \<open>
  C6: for a batch whose call returned a success status with a readable body, the result list
  has one entry per member; the entry of the member at position \<open>i\<close> carries that member's
  phone and is built from the parsed result at position \<open>i\<close>; when the parser produced
  fewer results than there are members (it always produces at least one), every member at
  a position beyond them gets the entry built from the first parsed result, so its success
  flag is the first parsed result's, which is whether the first code is \<open>0\<close>.
\<close>

theorem C6_results_matched_by_position:
  assumes body: "bodyText response = Inr responseText" and ok: "ok response"
    and parsed: "parsed = parsePragatiResponse responseText (length (members b))"
    and i: "i < length (members b)"
  shows "length (sendBatch b (Resolves response)) = length (members b)
       \<and> parsed \<noteq> []
       \<and> r_phone (sendBatch b (Resolves response) ! i) = phone (members b ! i)
       \<and> (i < length parsed \<longrightarrow>
            sendBatch b (Resolves response) ! i = parsedToResult (members b ! i) (parsed ! i))
       \<and> (length parsed \<le> i \<longrightarrow>
            sendBatch b (Resolves response) ! i = parsedToResult (members b ! i) (parsed ! 0)
          \<and> r_success (sendBatch b (Resolves response) ! i) = success (parsed ! 0)
          \<and> success (parsed ! 0) = (errorCode (parsed ! 0) = ''0''))"
proof -
  have ne: "parsed \<noteq> []" using parsed by (simp add: parsePragatiResponse_nonempty)
  have len: "length (sendBatch b (Resolves response)) = length (members b)"
    by (simp add: sendBatch_ok [OF body ok])
  have nth: "sendBatch b (Resolves response) ! i =
               parsedToResult (members b ! i)
                 (if i < length parsed then parsed ! i else parsed ! 0)"
    using i parsed by (simp add: sendBatch_ok [OF body ok])
  have succ: "r_success (parsedToResult r p) = success p" for r p
    by (simp add: parsedToResult_def)
  have ph: "r_phone (parsedToResult r p) = phone r" for r p
    by (simp add: parsedToResult_def)
  have first: "success (parsed ! 0) = (errorCode (parsed ! 0) = ''0'')"
  proof -
    from ne have "0 < length parsed" by simp
    then show ?thesis
      unfolding parsed by (simp add: parsePragatiResponse_def Let_def)
  qed
  from ne len nth succ ph first show ?thesis by auto
qed

lemma parse_creditExpired:
  "parsePragatiResponse ''guid=G1&errorcode=7'' n =
     [\<lparr> success = False, guid = None, errorCode = ''7'',
        errorMessage = Text ''Credit Expired - Account balance is zero'', seqno = None \<rparr>]"
  by (simp add: parsePragatiResponse_def Let_def split_def notAmp_def seqnoAt_def
      errorMessageFor_def getProp_def errorMessages_def upt_rec)

theorem C6_results_matched_by_position_witness:
  "bodyText creditExpired = Inr ''guid=G1&errorcode=7''
   \<and> ok creditExpired
   \<and> length (parsePragatiResponse ''guid=G1&errorcode=7'' 2) = 1
   \<and> sendBatch \<lparr> messageText = ''hello'', members = [rHello, rOther] \<rparr> (Resolves creditExpired) ! 1 =
       \<lparr> r_phone = Some ''9123456789'', r_success = False, r_guid = None, r_seqno = None,
         r_error = Some (Text ''Credit Expired - Account balance is zero''),
         r_errorCode = Some ''7'' \<rparr>"
proof -
  have body: "bodyText creditExpired = Inr ''guid=G1&errorcode=7''"
    and ok: "ok creditExpired"
    by (simp_all add: creditExpired_def)
  have i: "1 < length (members \<lparr> messageText = ''hello'', members = [rHello, rOther] \<rparr>)"
    by simp
  from C6_results_matched_by_position [OF body ok refl i]
  have "length (parsePragatiResponse ''guid=G1&errorcode=7''
                  (length (members \<lparr> messageText = ''hello'', members = [rHello, rOther] \<rparr>))) \<le> 1
        \<longrightarrow> sendBatch \<lparr> messageText = ''hello'', members = [rHello, rOther] \<rparr>
              (Resolves creditExpired) ! 1 =
            parsedToResult (members \<lparr> messageText = ''hello'', members = [rHello, rOther] \<rparr> ! 1)
              (parsePragatiResponse ''guid=G1&errorcode=7''
                  (length (members \<lparr> messageText = ''hello'', members = [rHello, rOther] \<rparr>)) ! 0)"
    by blast
  then have "sendBatch \<lparr> messageText = ''hello'', members = [rHello, rOther] \<rparr>
              (Resolves creditExpired) ! 1 =
       \<lparr> r_phone = Some ''9123456789'', r_success = False, r_guid = None, r_seqno = None,
         r_error = Some (Text ''Credit Expired - Account balance is zero''),
         r_errorCode = Some ''7'' \<rparr>"
    unfolding parse_creditExpired by (simp add: parsedToResult_def rOther_def)
  with body ok show ?thesis by (simp add: parse_creditExpired)
qed

lemma sendBatches_trace:
  "phonesPresent bs \<Longrightarrow>
   snd (snd (sendBatches gw s t tok i bs R T)) = T @ concat (map (sendEffects s t tok) bs)"
proof (induction bs arbitrary: i R T)
  case Nil
  then show ?case by simp
next
  case (Cons b bs)
  from Cons.prems have p: "list_all (\<lambda>r. phone r \<noteq> None) (members b)" and ps: "phonesPresent bs"
    by (simp_all add: phonesPresent_def)
  from formatPhones_present [OF p] obtain phones where f: "formatPhones (members b) = Inr phones"
    by blast
  show ?case using Cons.IH [OF ps] f by (simp add: sendEffects_def)
qed

lemma delays_of_sendEffects:
  "list_all (\<lambda>r. phone r \<noteq> None) (members b) \<Longrightarrow>
   filter isDelay (sendEffects s t tok b) = [Delay 500]"
  using formatPhones_present [of "members b"]
  by (auto simp add: sendEffects_def isDelay_def)

text \<open>
  What the loop does in general: one pause of 500 ms per batch, \<open>n\<close> pauses for \<open>n\<close>
  batches, the last one after the final batch.
\<close>

lemma sendBatches_delays:
  assumes p: "phonesPresent bs"
  shows "filter isDelay (snd (snd (sendBatches gw s t tok i bs [] []))) =
           replicate (length bs) (Delay 500)"
proof -
  have "filter isDelay (concat (map (sendEffects s t tok) bs)) = replicate (length bs) (Delay 500)"
    using p
  proof (induction bs)
    case Nil
    then show ?case by simp
  next
    case (Cons b bs)
    then show ?case by (simp add: phonesPresent_def delays_of_sendEffects)
  qed
  then show ?thesis by (simp add: sendBatches_trace [OF p])
qed

lemma sendBatches_ends_with_delay:
  assumes p: "phonesPresent bs" and ne: "bs \<noteq> []"
  shows "last (snd (snd (sendBatches gw s t tok i bs [] []))) = Delay 500"
proof -
  from ne obtain xs b where bs: "bs = xs @ [b]" by (metis rev_exhaust)
  with p have p': "phonesPresent (xs @ [b])" by simp
  then have "list_all (\<lambda>r. phone r \<noteq> None) (members b)" by (simp add: phonesPresent_def)
  from formatPhones_present [OF this] obtain phones where "formatPhones (members b) = Inr phones"
    by blast
  then have "sendEffects s t tok b = [SendSMS (join phones '','') s (messageText b) t tok, Delay 500]"
    by (simp add: sendEffects_def)
  then show ?thesis unfolding bs by (simp add: sendBatches_trace [OF p'])
qed

text \<open>
  C9 (the code at the failing input): a request with one recipient makes one batch. The
  handler sends it and then pauses 500 ms before it answers: the pause stands at the end
  of the loop body and is taken after every batch, the final one included, so \<open>n\<close>
  batches cost \<open>n\<close> pauses, not \<open>n - 1\<close>.
\<close>

theorem C9_pause_after_the_only_batch:
  "sendBulkSMS exampleEnv enableRefused (\<lambda>k. accepted) freshState singleRequest =
     (Report ''Sent 1 SMS, 0 failed'' 1 1 0
        [\<lparr> r_phone = Some ''9876543210'', r_success = True, r_guid = Some ''G1'',
           r_seqno = Some ''911'', r_error = None, r_errorCode = None \<rparr>],
      freshState,
      [SendSMS ''919876543210'' ''JAINUN'' ''hello'' ''1007'' ''T0'', Delay 500])"
proof -
  have auth: "getAuthToken e enableRefused freshState = (Inr ''T0'', freshState, [])" for e
    by (simp add: getAuthToken_def validToken_def freshState_def enableRefused_def)
  have valid: "validateRecipients None [rHello] = None"
    by (simp add: rHello_def validatePhoneNumber_def stripNonDigits_def isDigit_def)
  have grouped: "groupByMessage None [rHello] [] = Inr [(''hello'', [rHello])]"
    by (simp add: resolveMessage_def rHello_def getProp_def objectPrototypeKeys_def Let_def)
  have batches: "makeBatches [(''hello'', [rHello])] =
                   [\<lparr> messageText = ''hello'', members = [rHello] \<rparr>]"
    by (simp add: makeBatches_def entries_def batchesOfGroup_def)
  have sent: "sendBatches (\<lambda>k. accepted) ''JAINUN'' ''1007'' ''T0'' 0
     [\<lparr> messageText = ''hello'', members = [rHello] \<rparr>] [] [] =
   (None,
    [\<lparr> r_phone = Some ''9876543210'', r_success = True, r_guid = Some ''G1'',
       r_seqno = Some ''911'', r_error = None, r_errorCode = None \<rparr>],
    [SendSMS ''919876543210'' ''JAINUN'' ''hello'' ''1007'' ''T0'', Delay 500])"
    by (simp add: accepted_def rHello_def sendBatch_def matchResults_def
      parsedToResult_def parsePragatiResponse_def Let_def split_def notAmp_def seqnoAt_def
      formatPhoneWithCountryCode_def stripNonDigits_def isDigit_def upt_rec)
  have rep: "report [\<lparr> r_phone = Some ''9876543210'', r_success = True, r_guid = Some ''G1'',
       r_seqno = Some ''911'', r_error = None, r_errorCode = None \<rparr>] =
       Report ''Sent 1 SMS, 0 failed'' 1 1 0
        [\<lparr> r_phone = Some ''9876543210'', r_success = True, r_guid = Some ''G1'',
           r_seqno = Some ''911'', r_error = None, r_errorCode = None \<rparr>]"
    by (simp add: report_def Let_def showNat.simps digitChar_def)
  show ?thesis
    unfolding sendBulkSMS_def singleRequest_def
    by (simp add: exampleEnv_def valid auth grouped batches sent rep
        del: validateRecipients.simps groupByMessage.simps sendBatches.simps)
qed

subsection \<open>The single-SMS endpoint\<close>

text \<open>
  C10: for a phone that passes validation and a non-empty message, \<open>sendSingleSMS\<close>
  hands \<open>sendBulkSMS\<close> the body \<open>{ recipients: [{ phone, message }] }\<close>, which has no
  \<open>templateid\<close>; whatever the environment, the gateway and the module state are, the
  handler then ends in \<open>next(new Error('SMS configuration incomplete'))\<close> with the module
  state untouched and no effect: no token call and no send.
\<close>

theorem C10_single_sms_never_dispatches:
  assumes valid: "validatePhoneNumber p" and msg: "m \<noteq> []"
  shows "sendSingleSMS e w gateway st (Some p) (Some m) =
           sendBulkSMS e w gateway st
             \<lparr> template = None, templateid = None,
               recipients = Some [\<lparr> phone = Some p, message = Some m, templateVars = None \<rparr>] \<rparr>
       \<and> sendSingleSMS e w gateway st (Some p) (Some m) =
           (Next (Error ''SMS configuration incomplete''), st, [])"
proof -
  from valid have p: "p \<noteq> []"
    by (auto simp add: validatePhoneNumber_def stripNonDigits_def)
  have bulk: "sendBulkSMS e w gateway st
             \<lparr> template = None, templateid = None,
               recipients = Some [\<lparr> phone = Some p, message = Some m, templateVars = None \<rparr>] \<rparr>
           = (Next (Error ''SMS configuration incomplete''), st, [])"
    using valid msg p by (simp add: sendBulkSMS_def split: option.splits)
  have single: "sendSingleSMS e w gateway st (Some p) (Some m) =
           sendBulkSMS e w gateway st
             \<lparr> template = None, templateid = None,
               recipients = Some [\<lparr> phone = Some p, message = Some m, templateVars = None \<rparr>] \<rparr>"
    using valid msg p by (simp add: sendSingleSMS_def)
  from bulk single show ?thesis by simp
qed

lemma validate_9876543210: "validatePhoneNumber ''9876543210''"
  by (simp add: validatePhoneNumber_def stripNonDigits_def isDigit_def)

theorem C10_single_sms_never_dispatches_witness:
  "validatePhoneNumber ''9876543210''
   \<and> sendSingleSMS exampleEnv enableRefused (\<lambda>k. accepted) freshState
        (Some ''9876543210'') (Some ''hello'') =
       (Next (Error ''SMS configuration incomplete''), freshState, [])"
proof -
  have msg: "''hello'' \<noteq> []" by simp
  from C10_single_sms_never_dispatches [OF validate_9876543210 msg]
  have "sendSingleSMS exampleEnv enableRefused (\<lambda>k. accepted) freshState
          (Some ''9876543210'') (Some ''hello'') =
        (Next (Error ''SMS configuration incomplete''), freshState, [])"
    by blast
  with validate_9876543210 show ?thesis by blast
qed


subsection \<open>Grouping and splitting\<close>

lemma set_firstOccurrences: "set (firstOccurrences xs) = set xs"
  by (induction xs) auto

lemma distinct_firstOccurrences: "distinct (firstOccurrences xs)"
  by (induction xs) (auto simp add: set_firstOccurrences)

lemma filter_firstOccurrences:
  "filter P (firstOccurrences xs) = firstOccurrences (filter P xs)"
proof (induction xs)
  case Nil
  then show ?case by simp
next
  case (Cons x xs)
  show ?case
  proof (cases "P x")
    case True
    have "filter P (filter (\<lambda>y. y \<noteq> x) (firstOccurrences xs)) =
          filter (\<lambda>y. y \<noteq> x) (filter P (firstOccurrences xs))"
      by (simp add: conj_commute)
    with True Cons show ?thesis by simp
  next
    case False
    have "filter P (filter (\<lambda>y. y \<noteq> x) (firstOccurrences xs)) = filter P (firstOccurrences xs)"
      using False by (auto intro: filter_cong)
    with False Cons show ?thesis by simp
  qed
qed

lemma update_absent:
  "k \<notin> fst ` set al \<Longrightarrow> AList.update k v al = al @ [(k, v)]"
  by (induction al) auto

lemma update_present:
  "distinct (map fst al) \<Longrightarrow> map_of al k = Some g \<Longrightarrow>
   AList.update k v al = map (\<lambda>(k', v'). if k' = k then (k', v) else (k', v')) al"
proof (induction al)
  case Nil
  then show ?case by simp
next
  case (Cons p al)
  show ?case
  proof (cases "fst p = k")
    case True
    with Cons.prems have "k \<notin> fst ` set al" by auto
    then have "map (\<lambda>(k', v'). if k' = k then (k', v) else (k', v')) al = al"
      by (induction al) auto
    with True show ?thesis by (cases p) simp
  next
    case False
    with Cons show ?thesis by (cases p) auto
  qed
qed

lemma mergeGroups_new:
  assumes m: "m = resolveMessage tpl r" and absent: "m \<notin> fst ` set acc"
  shows "mergeGroups tpl (acc @ [(m, [r])]) rs = mergeGroups tpl acc (r # rs)"
proof -
  let ?res = "resolveMessage tpl"
  let ?Y = "filter (\<lambda>x. x \<notin> fst ` set acc) (map ?res rs)"
  have a: "map (\<lambda>(k, g). (k, g @ filter (\<lambda>r'. ?res r' = k) (r # rs))) acc =
           map (\<lambda>(k, g). (k, g @ filter (\<lambda>r'. ?res r' = k) rs)) acc"
    using absent m by (intro map_cong) (auto simp add: image_iff)
  have b: "filter (\<lambda>x. x \<notin> fst ` set (acc @ [(m, [r])])) (map ?res rs) = filter (\<lambda>y. y \<noteq> m) ?Y"
    by (auto intro: filter_cong)
  have c: "map (\<lambda>k. (k, filter (\<lambda>r'. ?res r' = k) (r # rs))) (filter (\<lambda>y. y \<noteq> m) (firstOccurrences ?Y)) =
           map (\<lambda>k. (k, filter (\<lambda>r'. ?res r' = k) rs)) (filter (\<lambda>y. y \<noteq> m) (firstOccurrences ?Y))"
    using m by (intro map_cong) auto
  have d: "filter (\<lambda>x. x \<notin> fst ` set acc) (map ?res (r # rs)) = m # ?Y"
    using absent m by simp
  have e: "firstOccurrences (filter (\<lambda>y. y \<noteq> m) ?Y) = filter (\<lambda>y. y \<noteq> m) (firstOccurrences ?Y)"
    by (simp add: filter_firstOccurrences)
  have lhs: "mergeGroups tpl (acc @ [(m, [r])]) rs =
          map (\<lambda>(k, g). (k, g @ filter (\<lambda>r'. ?res r' = k) rs)) acc
          @ (m, r # filter (\<lambda>r'. ?res r' = m) rs)
          # map (\<lambda>k. (k, filter (\<lambda>r'. ?res r' = k) rs)) (filter (\<lambda>y. y \<noteq> m) (firstOccurrences ?Y))"
    unfolding mergeGroups_def b e by simp
  have rhs: "mergeGroups tpl acc (r # rs) =
          map (\<lambda>(k, g). (k, g @ filter (\<lambda>r'. ?res r' = k) (r # rs))) acc
          @ (m, r # filter (\<lambda>r'. ?res r' = m) rs)
          # map (\<lambda>k. (k, filter (\<lambda>r'. ?res r' = k) (r # rs))) (filter (\<lambda>y. y \<noteq> m) (firstOccurrences ?Y))"
    unfolding mergeGroups_def d using m by simp
  show ?thesis unfolding lhs rhs a c ..
qed

lemma mergeGroups_old:
  assumes m: "m = resolveMessage tpl r" and d: "distinct (map fst acc)"
    and present: "map_of acc m = Some g"
  shows "mergeGroups tpl (AList.update m (g @ [r]) acc) rs = mergeGroups tpl acc (r # rs)"
proof -
  let ?res = "resolveMessage tpl"
  let ?upd = "\<lambda>(k', v'). if k' = m then (k', g @ [r]) else (k', v')"
  have u: "AList.update m (g @ [r]) acc = map ?upd acc"
    by (rule update_present [OF d present])
  have keys: "fst ` set (map ?upd acc) = fst ` set acc"
    by (force simp add: image_iff split: if_splits)
  have mem: "m \<in> fst ` set acc"
    using map_of_SomeD [OF present] by force
  have a: "map (\<lambda>(k, v). (k, v @ filter (\<lambda>r'. ?res r' = k) rs)) (map ?upd acc) =
           map (\<lambda>(k, v). (k, v @ filter (\<lambda>r'. ?res r' = k) (r # rs))) acc"
  proof -
    have "(case ?upd p of (k, v) \<Rightarrow> (k, v @ filter (\<lambda>r'. ?res r' = k) rs)) =
          (case p of (k, v) \<Rightarrow> (k, v @ filter (\<lambda>r'. ?res r' = k) (r # rs)))"
      if "p \<in> set acc" for p
    proof (cases p)
      case (Pair k v)
      show ?thesis
      proof (cases "k = m")
        case True
        with that Pair d present have "v = g"
          by (metis map_of_is_SomeI option.inject)
        with True Pair m show ?thesis by simp
      next
        case False
        with Pair m show ?thesis by auto
      qed
    qed
    then show ?thesis by (simp add: comp_def)
  qed
  have b: "filter (\<lambda>x. x \<notin> fst ` set acc) (map ?res (r # rs)) =
           filter (\<lambda>x. x \<notin> fst ` set acc) (map ?res rs)"
    using mem m by simp
  have c: "map (\<lambda>k. (k, filter (\<lambda>r'. ?res r' = k) (r # rs)))
             (firstOccurrences (filter (\<lambda>x. x \<notin> fst ` set acc) (map ?res rs))) =
           map (\<lambda>k. (k, filter (\<lambda>r'. ?res r' = k) rs))
             (firstOccurrences (filter (\<lambda>x. x \<notin> fst ` set acc) (map ?res rs)))"
  proof (intro map_cong refl)
    fix x
    assume "x \<in> set (firstOccurrences (filter (\<lambda>x. x \<notin> fst ` set acc) (map ?res rs)))"
    then have "x \<notin> fst ` set acc" by (simp add: set_firstOccurrences)
    with mem have "x \<noteq> m" by blast
    with m show "(x, filter (\<lambda>r'. ?res r' = x) (r # rs)) = (x, filter (\<lambda>r'. ?res r' = x) rs)"
      by simp
  qed
  show ?thesis
    unfolding mergeGroups_def u keys b
    by (simp only: a c)
qed

lemma groupByMessage_merge:
  assumes "distinct (map fst acc)"
    and "\<forall>r \<in> set rs. resolveMessage tpl r \<notin> set objectPrototypeKeys"
  shows "groupByMessage tpl rs acc = Inr (mergeGroups tpl acc rs)"
  using assms
proof (induction rs arbitrary: acc)
  case Nil
  then show ?case by (simp add: mergeGroups_def)
next
  case (Cons r rs)
  let ?m = "resolveMessage tpl r"
  from Cons.prems have notproto: "?m \<notin> set objectPrototypeKeys"
    and rest: "\<forall>r \<in> set rs. resolveMessage tpl r \<notin> set objectPrototypeKeys" by simp_all
  show ?case
  proof (cases "map_of acc ?m")
    case None
    then have absent: "?m \<notin> fst ` set acc" by (simp add: map_of_eq_None_iff)
    have g: "getProp acc ?m = Undefined" using None notproto by (simp add: getProp_def)
    have d: "distinct (map fst (acc @ [(?m, [r])]))" using Cons.prems(1) absent by auto
    show ?thesis
      using Cons.IH [OF d rest] g
      by (simp add: Let_def update_absent [OF absent] mergeGroups_new [OF refl absent])
  next
    case (Some g)
    have gp: "getProp acc ?m = Own g" using Some by (simp add: getProp_def)
    have d: "distinct (map fst (AList.update ?m (g @ [r]) acc))"
      using Cons.prems(1) by (simp add: distinct_update)
    show ?thesis
      using Cons.IH [OF d rest] gp
      by (simp add: Let_def mergeGroups_old [OF refl Cons.prems(1) Some])
  qed
qed

lemma groupByMessage_groupsOf:
  assumes "\<forall>r \<in> set rs. resolveMessage tpl r \<notin> set objectPrototypeKeys"
  shows "groupByMessage tpl rs [] = Inr (groupsOf tpl rs)"
  using groupByMessage_merge [of "[]" rs tpl] assms
  by (simp add: mergeGroups_def groupsOf_def)

lemma chunkLoop_from:
  "chunkLoop msg g (100 * j) =
     map (\<lambda>k. \<lparr> messageText = msg, members = take 100 (drop (100 * k) g) \<rparr>)
         [j ..< (length g + 99) div 100]"
proof (induction "(length g + 99) div 100 - j" arbitrary: j)
  case 0
  then have "\<not> 100 * j < length g" by arith
  moreover from 0 have "[j ..< (length g + 99) div 100] = []" by simp
  ultimately show ?case by (simp add: chunkLoop.simps [of msg g "100 * j"])
next
  case (Suc n)
  then have lt: "j < (length g + 99) div 100" by arith
  then have inside: "100 * j < length g" by arith
  from Suc have n: "n = (length g + 99) div 100 - Suc j" by arith
  have step: "100 * j + 100 = 100 * Suc j" by simp
  show ?case
    using Suc.hyps(1) [OF n] inside lt
    by (simp add: chunkLoop.simps [of msg g "100 * j"] step upt_conv_Cons del: mult_Suc_right)
qed

lemma batchesOfGroup_chunksOf:
  assumes "g \<noteq> []"
  shows "batchesOfGroup (msg, g) = chunksOf (msg, g)"
proof (cases "length g \<le> 100")
  case True
  moreover from assms have "0 < length g" by simp
  ultimately have "(length g + 99) div 100 = 1" by arith
  with True show ?thesis by (simp add: batchesOfGroup_def chunksOf_def)
next
  case False
  then show ?thesis
    using chunkLoop_from [of msg g 0] by (simp add: batchesOfGroup_def chunksOf_def)
qed

lemma groupsOf_nonempty:
  "(msg, g) \<in> set (groupsOf tpl rs) \<Longrightarrow> g \<noteq> []"
  by (auto simp add: groupsOf_def set_firstOccurrences filter_empty_conv)

lemma set_entries: "set (entries obj) = set obj"
  by (auto simp add: entries_def)

lemma makeBatches_groupsOf:
  "makeBatches (groupsOf tpl rs) = concat (map chunksOf (entries (groupsOf tpl rs)))"
proof -
  have "map batchesOfGroup (entries (groupsOf tpl rs)) = map chunksOf (entries (groupsOf tpl rs))"
  proof (intro map_cong refl)
    fix p assume "p \<in> set (entries (groupsOf tpl rs))"
    then have "p \<in> set (groupsOf tpl rs)" by (simp add: set_entries)
    then show "batchesOfGroup p = chunksOf p"
      using groupsOf_nonempty [of "fst p" "snd p" tpl rs] batchesOfGroup_chunksOf [of "snd p" "fst p"]
      by simp
  qed
  then show ?thesis by (simp only: makeBatches_def)
qed

lemma chunksOf_sizes:
  "b \<in> set (chunksOf (msg, g)) \<Longrightarrow> 0 < length (members b) \<and> length (members b) \<le> 100"
proof -
  assume "b \<in> set (chunksOf (msg, g))"
  then obtain k where k: "k < (length g + 99) div 100"
    and b: "members b = take 100 (drop (100 * k) g)"
    by (auto simp add: chunksOf_def)
  from k have "100 * k < length g" by arith
  with b show ?thesis by simp
qed

lemma chunksOf_concat: "concat (map members (chunksOf (msg, g))) = g"
proof -
  have "concat (map (\<lambda>k. take 100 (drop (100 * k) g)) [0 ..< n]) = take (100 * n) g" for n
  proof (induction n)
    case 0
    then show ?case by simp
  next
    case (Suc n)
    have "take (100 * n) g @ take 100 (drop (100 * n) g) = take (100 * n + 100) g"
      by (simp add: take_add)
    with Suc show ?case by (simp add: add.commute)
  qed
  from this [of "(length g + 99) div 100"]
  have "concat (map (\<lambda>k. take 100 (drop (100 * k) g)) [0 ..< (length g + 99) div 100]) = g"
    by (simp, arith?)
  then show ?thesis by (simp add: chunksOf_def comp_def)
qed

lemma entries_no_index:
  "\<forall>p \<in> set obj. \<not> isArrayIndex (fst p) \<Longrightarrow> entries obj = obj"
  by (simp add: entries_def filter_empty_conv [THEN iffD2] cong: filter_cong)

lemma firstOccurrences_const:
  "xs \<noteq> [] \<Longrightarrow> \<forall>x \<in> set xs. x = c \<Longrightarrow> firstOccurrences xs = [c]"
proof (induction xs)
  case Nil
  then show ?case by simp
next
  case (Cons x xs)
  then show ?case by (cases "xs = []") auto
qed

lemma groupsOf_single_text:
  assumes "rs \<noteq> []" and "\<forall>r \<in> set rs. resolveMessage tpl r = msg"
  shows "groupsOf tpl rs = [(msg, rs)]"
proof -
  have "firstOccurrences (map (resolveMessage tpl) rs) = [msg]"
    using assms by (intro firstOccurrences_const) auto
  moreover have "filter (\<lambda>r. resolveMessage tpl r = msg) rs = rs"
    using assms(2) by (simp add: filter_id_conv)
  ultimately show ?thesis by (simp add: groupsOf_def)
qed

lemma entries_single: "entries [p] = [p]"
  by (simp add: entries_def)

lemma chunksOf_250:
  assumes "length g = 250"
  shows "chunksOf (msg, g) =
           [\<lparr> messageText = msg, members = take 100 g \<rparr>,
            \<lparr> messageText = msg, members = take 100 (drop 100 g) \<rparr>,
            \<lparr> messageText = msg, members = drop 200 g \<rparr>]"
proof -
  have "[0 ..< (3::nat)] = [0, 1, 2]" by (simp add: upt_rec)
  with assms show ?thesis by (simp add: chunksOf_def)
qed

text \<open>
  C7 (amended): let no recipient's resolved text be the name of a member of
  \<open>Object.prototype\<close>. Then the grouping loop partitions the recipients by exact resolved
  text, the groups created in the order of first occurrence and the members of a group in
  their original order. The batches follow the order in which \<open>Object.entries\<close> lists
  the groups: first the groups whose text is an array index (a canonical decimal numeral
  below \<open>2^32 - 1\<close>), in ascending numeric order, then all other groups in the order of
  first occurrence; when no text is an array index this is the order of first occurrence.
  Each group is cut into consecutive chunks of 100 with a possibly shorter last chunk,
  the chunks of a group concatenate to the group, and every batch has between 1 and 100
  members. In particular 250 recipients with one resolved text give exactly the three
  batches of members 0..99, 100..199 and 200..249.
\<close>

theorem C7_batches_by_text_in_key_order:
  assumes noproto: "\<forall>r \<in> set rs. resolveMessage tpl r \<notin> set objectPrototypeKeys"
  shows "groupByMessage tpl rs [] = Inr (groupsOf tpl rs)
       \<and> makeBatches (groupsOf tpl rs) =
           concat (map chunksOf
             (sort_key (\<lambda>p. indexValue (fst p))
                (filter (\<lambda>p. isArrayIndex (fst p)) (groupsOf tpl rs))
              @ filter (\<lambda>p. \<not> isArrayIndex (fst p)) (groupsOf tpl rs)))
       \<and> ((\<forall>r \<in> set rs. \<not> isArrayIndex (resolveMessage tpl r)) \<longrightarrow>
             makeBatches (groupsOf tpl rs) = concat (map chunksOf (groupsOf tpl rs)))
       \<and> (\<forall>p \<in> set (groupsOf tpl rs). concat (map members (chunksOf p)) = snd p)
       \<and> (\<forall>b \<in> set (makeBatches (groupsOf tpl rs)).
             0 < length (members b) \<and> length (members b) \<le> 100)
       \<and> (length rs = 250 \<and> (\<forall>r \<in> set rs. resolveMessage tpl r = msg) \<longrightarrow>
             makeBatches (groupsOf tpl rs) =
               [\<lparr> messageText = msg, members = take 100 rs \<rparr>,
                \<lparr> messageText = msg, members = take 100 (drop 100 rs) \<rparr>,
                \<lparr> messageText = msg, members = drop 200 rs \<rparr>])"
proof -
  have a: "groupByMessage tpl rs [] = Inr (groupsOf tpl rs)"
    by (rule groupByMessage_groupsOf [OF noproto])
  have b: "makeBatches (groupsOf tpl rs) =
           concat (map chunksOf
             (sort_key (\<lambda>p. indexValue (fst p))
                (filter (\<lambda>p. isArrayIndex (fst p)) (groupsOf tpl rs))
              @ filter (\<lambda>p. \<not> isArrayIndex (fst p)) (groupsOf tpl rs)))"
    using makeBatches_groupsOf [of tpl rs] by (simp only: entries_def)
  have c: "makeBatches (groupsOf tpl rs) = concat (map chunksOf (groupsOf tpl rs))"
    if "\<forall>r \<in> set rs. \<not> isArrayIndex (resolveMessage tpl r)"
  proof -
    from that have "\<forall>p \<in> set (groupsOf tpl rs). \<not> isArrayIndex (fst p)"
      by (auto simp add: groupsOf_def set_firstOccurrences)
    then have "entries (groupsOf tpl rs) = groupsOf tpl rs" by (rule entries_no_index)
    then show ?thesis by (simp add: makeBatches_groupsOf)
  qed
  have d: "\<forall>p \<in> set (groupsOf tpl rs). concat (map members (chunksOf p)) = snd p"
    using chunksOf_concat by auto
  have e: "\<forall>b \<in> set (makeBatches (groupsOf tpl rs)).
             0 < length (members b) \<and> length (members b) \<le> 100"
  proof
    fix b assume "b \<in> set (makeBatches (groupsOf tpl rs))"
    then obtain p where "b \<in> set (chunksOf p)"
      by (auto simp add: makeBatches_groupsOf)
    then show "0 < length (members b) \<and> length (members b) \<le> 100"
      using chunksOf_sizes [of b "fst p" "snd p"] by simp
  qed
  have f: "makeBatches (groupsOf tpl rs) =
               [\<lparr> messageText = msg, members = take 100 rs \<rparr>,
                \<lparr> messageText = msg, members = take 100 (drop 100 rs) \<rparr>,
                \<lparr> messageText = msg, members = drop 200 rs \<rparr>]"
    if len: "length rs = 250" and same: "\<forall>r \<in> set rs. resolveMessage tpl r = msg"
  proof -
    from len have "rs \<noteq> []" by auto
    from groupsOf_single_text [OF this same]
    have "entries (groupsOf tpl rs) = [(msg, rs)]" by (simp add: entries_single)
    with makeBatches_groupsOf [of tpl rs] show ?thesis
      by (simp add: chunksOf_250 [OF len])
  qed
  from a b c d e f show ?thesis by blast
qed

lemma indexValue_7: "indexValue ''7'' = 7"
  by (simp add: indexValue_def digitValue_def)

lemma isArrayIndex_7: "isArrayIndex ''7''"
  by (simp add: isArrayIndex_def isDigit_def indexValue_7)

lemma not_isArrayIndex_hello: "\<not> isArrayIndex ''hello''"
  by (simp add: isArrayIndex_def isDigit_def)

lemma resolve_rHello: "resolveMessage tpl rHello = ''hello''"
  by (simp add: resolveMessage_def rHello_def)

lemma resolve_rSeven: "resolveMessage tpl rSeven = ''7''"
  by (simp add: resolveMessage_def rSeven_def)

lemma entries_hello_7: "entries [(''hello'', x), (''7'', y)] = [(''7'', y), (''hello'', x)]"
  by (simp add: entries_def isArrayIndex_7 not_isArrayIndex_hello)

text \<open>
  C7 (as stated, refuted): two recipients, the first with the text \<open>hello\<close> and the
  second with the text \<open>7\<close>. The groups are created in that order, but \<open>7\<close> is an
  array index, so \<open>Object.entries\<close> lists it first and the batch for \<open>7\<close> is dispatched
  before the batch for \<open>hello\<close>: the order of the batches is not the order of first
  occurrence.
\<close>

theorem C7_numeric_text_dispatched_first:
  "groupByMessage None [rHello, rSeven] [] = Inr [(''hello'', [rHello]), (''7'', [rSeven])]
   \<and> map messageText (makeBatches [(''hello'', [rHello]), (''7'', [rSeven])]) = [''7'', ''hello'']
   \<and> firstOccurrences (map (resolveMessage None) [rHello, rSeven]) = [''hello'', ''7'']
   \<and> map messageText (makeBatches [(''hello'', [rHello]), (''7'', [rSeven])]) \<noteq>
       firstOccurrences (map (resolveMessage None) [rHello, rSeven])"
  by (simp add: resolve_rHello resolve_rSeven getProp_def objectPrototypeKeys_def Let_def
      makeBatches_def entries_hello_7 batchesOfGroup_def)

theorem C7_batches_by_text_in_key_order_witness:
  "resolveMessage None rHello \<notin> set objectPrototypeKeys
   \<and> resolveMessage None rSeven \<notin> set objectPrototypeKeys
   \<and> groupByMessage None [rHello, rSeven, rHello] [] =
       Inr [(''hello'', [rHello, rHello]), (''7'', [rSeven])]
   \<and> makeBatches [(''hello'', [rHello, rHello]), (''7'', [rSeven])] =
       [\<lparr> messageText = ''7'', members = [rSeven] \<rparr>,
        \<lparr> messageText = ''hello'', members = [rHello, rHello] \<rparr>]"
proof -
  have h: "resolveMessage None rHello \<notin> set objectPrototypeKeys"
    and s: "resolveMessage None rSeven \<notin> set objectPrototypeKeys"
    by (simp_all add: resolve_rHello resolve_rSeven objectPrototypeKeys_def)
  then have pre: "\<forall>r \<in> set [rHello, rSeven, rHello].
                    resolveMessage None r \<notin> set objectPrototypeKeys" by simp
  have ne: "rHello \<noteq> rSeven" by (simp add: rHello_def rSeven_def)
  have g: "groupsOf None [rHello, rSeven, rHello] =
             [(''hello'', [rHello, rHello]), (''7'', [rSeven])]"
    using ne by (simp add: groupsOf_def resolve_rHello resolve_rSeven)
  from C7_batches_by_text_in_key_order [OF pre]
  have a: "groupByMessage None [rHello, rSeven, rHello] [] =
             Inr (groupsOf None [rHello, rSeven, rHello])"
    and b: "makeBatches (groupsOf None [rHello, rSeven, rHello]) =
           concat (map chunksOf
             (sort_key (\<lambda>p. indexValue (fst p))
                (filter (\<lambda>p. isArrayIndex (fst p)) (groupsOf None [rHello, rSeven, rHello]))
              @ filter (\<lambda>p. \<not> isArrayIndex (fst p)) (groupsOf None [rHello, rSeven, rHello])))"
    by blast+
  have c: "makeBatches [(''hello'', [rHello, rHello]), (''7'', [rSeven])] =
       [\<lparr> messageText = ''7'', members = [rSeven] \<rparr>,
        \<lparr> messageText = ''hello'', members = [rHello, rHello] \<rparr>]"
    using b unfolding g
    by (simp add: isArrayIndex_7 not_isArrayIndex_hello chunksOf_def)
  from h s a c show ?thesis by (simp add: g)
qed

lemma validateRecipients_phones:
  "validateRecipients tpl rs = None \<Longrightarrow> list_all (\<lambda>r. phone r \<noteq> None) rs"
  by (induction rs) (auto split: option.splits if_splits)

lemma makeBatches_members:
  assumes "b \<in> set (makeBatches (groupsOf tpl rs))"
  shows "set (members b) \<subseteq> set rs"
proof -
  from assms obtain p where p: "p \<in> set (groupsOf tpl rs)" and b: "b \<in> set (chunksOf p)"
    by (auto simp add: makeBatches_groupsOf set_entries)
  from p have "set (snd p) \<subseteq> set rs" by (auto simp add: groupsOf_def)
  moreover from b obtain k where "members b = take 100 (drop (100 * k) (snd p))"
    by (cases p) (auto simp add: chunksOf_def)
  ultimately show ?thesis
    using set_take_subset [of 100 "drop (100 * k) (snd p)"] set_drop_subset [of "100 * k" "snd p"]
    by auto
qed

text \<open>
  The batches the handler sends after a successful validation all carry their phones, so
  the send loop runs under the hypothesis of the isolation theorem.
\<close>

lemma validated_batches_have_phones:
  assumes "validateRecipients tpl rs = None"
  shows "phonesPresent (makeBatches (groupsOf tpl rs))"
proof -
  from validateRecipients_phones [OF assms] have all: "\<forall>r \<in> set rs. phone r \<noteq> None"
    by (simp add: list_all_iff)
  show ?thesis
    unfolding phonesPresent_def list_all_iff
    using all makeBatches_members [of _ tpl rs] by blast
qed

end
